theory Spec2Isabelle
  imports Complex_Main "HOL-Library.Monad_Syntax" "HOL-Library.AList"
begin

section \<open>Python values\<close>

text \<open>
  The scripts \<^verbatim>\<open>helperscripts/concat_jobs.py\<close> and
  \<^verbatim>\<open>helperscripts/concat_jobs_freshdataset.py\<close> work on dynamically typed values:
  the cells of a pandas DataFrame read from CSV (a float NaN for a missing cell, numbers,
  booleans, strings, and \<^verbatim>\<open>None\<close> where the script stores it) and the objects that
  \<^verbatim>\<open>json.loads\<close> returns (also lists and dicts with string keys).

  A float is its exact value when finite, or one of NaN and the two infinities; the rounding
  of a decimal literal to binary64 is not modelled. Strings are Isabelle strings. A dict with
  string keys is an association list in insertion order.
\<close>

datatype pyfloat = Finite rat | NaN | PosInf | NegInf

datatype pyval =
    PNone
  | PBool bool
  | PInt int
  | PFloat pyfloat
  | PStr string
  | PList "pyval list"
  | PDict "(string \<times> pyval) list"

datatype exn = JSONDecodeError | TypeError | ValueError | OverflowError | KeyError | AttributeError

text \<open>
  \<^verbatim>\<open>pd.isna\<close> and \<^verbatim>\<open>pd.notna\<close> on a scalar or a dict: only \<^verbatim>\<open>None\<close>
  and the float NaN are missing. (On a list pandas answers elementwise; the scripts apply the
  two functions to cells of a frame read from CSV, which are scalars, and to dicts.)
\<close>

definition pd_isna :: "pyval \<Rightarrow> bool" where
  "pd_isna v \<longleftrightarrow> v = PNone \<or> v = PFloat NaN"

definition pd_notna :: "pyval \<Rightarrow> bool" where
  "pd_notna v \<longleftrightarrow> \<not> pd_isna v"

definition is_dict :: "pyval \<Rightarrow> bool" where
  "is_dict v = (case v of PDict _ \<Rightarrow> True | _ \<Rightarrow> False)"

definition is_list :: "pyval \<Rightarrow> bool" where
  "is_list v = (case v of PList _ \<Rightarrow> True | _ \<Rightarrow> False)"


text \<open>\<^verbatim>\<open>d[k] = v\<close> on a dict: the value of an existing key is replaced in place, a new key is
  appended.\<close>

definition dict_set :: "(string \<times> 'v) list \<Rightarrow> string \<Rightarrow> 'v \<Rightarrow> (string \<times> 'v) list" where
  "dict_set d k v = AList.update k v d"

section \<open>json.loads\<close>

text \<open>
  The standard library's decoder, as its documentation describes it: the JSON grammar with
  Python's extensions \<^verbatim>\<open>NaN\<close>, \<^verbatim>\<open>Infinity\<close> and \<^verbatim>\<open>-Infinity\<close>, whitespace
  (space, tab, line feed, carriage return) between tokens, no control character inside a
  string, and \<^verbatim>\<open>JSONDecodeError\<close> for every other text. The input is cut into tokens,
  and the tokens are read with a stack of the containers that are still open. Limits of the
  interpreter (recursion depth, the digit limit of integer conversion) are not modelled.
\<close>

definition is_ws :: "char \<Rightarrow> bool" where
  "is_ws c \<longleftrightarrow> c = CHR 0x20 \<or> c = CHR 0x09 \<or> c = CHR 0x0A \<or> c = CHR 0x0D"

definition is_digit :: "char \<Rightarrow> bool" where
  "is_digit c \<longleftrightarrow> c \<in> set ''0123456789''"

definition digit_val :: "char \<Rightarrow> nat" where
  "digit_val c = of_char c - 48"

definition digits_val :: "string \<Rightarrow> nat" where
  "digits_val ds = foldl (\<lambda>n c. 10 * n + digit_val c) 0 ds"

definition hex_val :: "char \<Rightarrow> nat option" where
  "hex_val c =
     (if is_digit c then Some (digit_val c)
      else if c \<in> set ''abcdef'' then Some (of_char c - 87)
      else if c \<in> set ''ABCDEF'' then Some (of_char c - 55)
      else None)"

definition unescape :: "char \<Rightarrow> char option" where
  "unescape e =
     (if e = CHR 0x22 then Some (CHR 0x22)
      else if e = CHR 0x5C then Some (CHR 0x5C)
      else if e = CHR ''/'' then Some (CHR ''/'')
      else if e = CHR ''b'' then Some (CHR 0x08)
      else if e = CHR ''f'' then Some (CHR 0x0C)
      else if e = CHR ''n'' then Some (CHR 0x0A)
      else if e = CHR ''r'' then Some (CHR 0x0D)
      else if e = CHR ''t'' then Some (CHR 0x09)
      else None)"

text \<open>The body of a string, after its opening quote: the decoded text and the input left after
  the closing quote. An escape \<^verbatim>\<open>\uXXXX\<close> gives the character of that code, taken in the
  8-bit character type of Isabelle strings.\<close>

fun lex_string :: "string \<Rightarrow> string \<Rightarrow> (string \<times> string) option" where
  "lex_string acc [] = None"
| "lex_string acc (c # cs) =
     (if c = CHR 0x22 then Some (rev acc, cs)
      else if c = CHR 0x5C then
        (case cs of
           [] \<Rightarrow> None
         | e # cs1 \<Rightarrow>
             if e = CHR ''u'' then
               (case cs1 of
                  h1 # h2 # h3 # h4 # cs2 \<Rightarrow>
                    (case (hex_val h1, hex_val h2, hex_val h3, hex_val h4) of
                       (Some a, Some b, Some c, Some d) \<Rightarrow>
                         lex_string (char_of (((a * 16 + b) * 16 + c) * 16 + d) # acc) cs2
                     | _ \<Rightarrow> None)
                | _ \<Rightarrow> None)
             else (case unescape e of
                     None \<Rightarrow> None
                   | Some ch \<Rightarrow> lex_string (ch # acc) cs1))
      else if (of_char c :: nat) < 32 then None
      else lex_string (c # acc) cs)"

text \<open>A number, by the decoder's pattern
  \<^verbatim>\<open>(-?(?:0|[1-9][0-9]*))(\.[0-9]+)?([eE][-+]?[0-9]+)?\<close>: an \<^verbatim>\<open>int\<close> when there is neither
  fraction nor exponent, a \<^verbatim>\<open>float\<close> otherwise.\<close>

definition lex_int_part :: "string \<Rightarrow> (string \<times> string) option" where
  "lex_int_part cs =
     (case cs of
        [] \<Rightarrow> None
      | c # r \<Rightarrow>
          if c = CHR ''0'' then Some ([c], r)
          else if is_digit c then Some (c # takeWhile is_digit r, dropWhile is_digit r)
          else None)"

definition lex_frac :: "string \<Rightarrow> string option \<times> string" where
  "lex_frac cs =
     (case cs of
        c # r \<Rightarrow>
          if c = CHR ''.'' \<and> takeWhile is_digit r \<noteq> []
          then (Some (takeWhile is_digit r), dropWhile is_digit r)
          else (None, cs)
      | [] \<Rightarrow> (None, cs))"

definition lex_exp :: "string \<Rightarrow> int option \<times> string" where
  "lex_exp cs =
     (case cs of
        e # r \<Rightarrow>
          if e = CHR ''e'' \<or> e = CHR ''E'' then
            (let (neg, r1) =
                   (case r of
                      s # r0 \<Rightarrow>
                        if s = CHR ''-'' then (True, r0)
                        else if s = CHR ''+'' then (False, r0)
                        else (False, r)
                    | [] \<Rightarrow> (False, r))
             in if takeWhile is_digit r1 = [] then (None, cs)
                else (Some ((if neg then - 1 else 1) * int (digits_val (takeWhile is_digit r1))),
                      dropWhile is_digit r1))
          else (None, cs)
      | [] \<Rightarrow> (None, cs))"

definition pow10 :: "int \<Rightarrow> rat" where
  "pow10 e = (if 0 \<le> e then 10 ^ nat e else 1 / 10 ^ nat (- e))"

definition lex_number :: "string \<Rightarrow> (pyval \<times> string) option" where
  "lex_number cs =
     (let (neg, cs0) = (case cs of
                          c # r \<Rightarrow> if c = CHR ''-'' then (True, r) else (False, cs)
                        | [] \<Rightarrow> (False, cs))
      in case lex_int_part cs0 of
           None \<Rightarrow> None
         | Some (ip, cs1) \<Rightarrow>
             (let (frac, cs2) = lex_frac cs1;
                  (ex, cs3) = lex_exp cs2;
                  sgn = (if neg then - 1 else 1 :: int)
              in if frac = None \<and> ex = None
                 then Some (PInt (sgn * int (digits_val ip)), cs3)
                 else
                   (let fd = (case frac of None \<Rightarrow> [] | Some ds \<Rightarrow> ds);
                        e = (case ex of None \<Rightarrow> 0 | Some x \<Rightarrow> x)
                    in Some (PFloat (Finite (of_int (sgn * int (digits_val (ip @ fd)))
                                              * pow10 (e - int (length fd)))), cs3))))"

datatype token = TLBrace | TRBrace | TLBrack | TRBrack | TColon | TComma | TVal pyval

definition starts_with :: "string \<Rightarrow> string \<Rightarrow> bool" where
  "starts_with p cs \<longleftrightarrow> take (length p) cs = p"

definition emit :: "token \<Rightarrow> token list option \<Rightarrow> token list option" where
  "emit t r = map_option ((#) t) r"

lemma lex_string_shorter: "lex_string acc cs = Some (s, rest) \<Longrightarrow> length rest < length cs"
proof (induction acc cs rule: lex_string.induct)
  case (1 acc)
  then show ?case by simp
next
  case (2 acc c cs)
  show ?case
  proof (cases "c = CHR 0x22")
    case True
    with "2.prems" show ?thesis by simp
  next
    case nq: False
    show ?thesis
    proof (cases "c = CHR 0x5C")
      case False
      with nq "2.prems" "2.IH"(3) show ?thesis
        by (simp split: if_splits)
    next
      case bs: True
      show ?thesis
      proof (cases cs)
        case Nil
        with nq bs "2.prems" show ?thesis by simp
      next
        case (Cons e cs1)
        show ?thesis
        proof (cases "e = CHR ''u''")
          case False
          with nq bs Cons "2.prems" "2.IH"(2) show ?thesis
            by (fastforce split: option.splits)
        next
          case True
          with nq bs Cons "2.prems" "2.IH"(1) show ?thesis
            by (fastforce split: list.splits option.splits)
        qed
      qed
    qed
  qed
qed

lemma lex_int_part_shorter: "lex_int_part cs = Some (ip, rest) \<Longrightarrow> length rest < length cs"
  by (auto simp: lex_int_part_def split: list.splits if_splits
           intro: le_imp_less_Suc length_dropWhile_le)

lemma lex_frac_le: "lex_frac cs = (f, rest) \<Longrightarrow> length rest \<le> length cs"
  by (auto simp: lex_frac_def split: list.splits if_splits
           intro: le_SucI length_dropWhile_le)

lemma lex_exp_le: "lex_exp cs = (x, rest) \<Longrightarrow> length rest \<le> length cs"
  by (auto simp: lex_exp_def Let_def split: list.splits if_splits prod.splits
           intro: le_SucI length_dropWhile_le order_trans)

lemma lex_number_shorter: "lex_number cs = Some (v, rest) \<Longrightarrow> length rest < length cs"
  by (auto simp: lex_number_def Let_def
           split: list.splits if_splits prod.splits option.splits
           dest!: lex_int_part_shorter lex_frac_le lex_exp_le)

function tokenize :: "string \<Rightarrow> token list option" where
  "tokenize [] = Some []"
| "tokenize (c # cs) =
     (if is_ws c then tokenize cs
      else if c = CHR ''{'' then emit TLBrace (tokenize cs)
      else if c = CHR ''}'' then emit TRBrace (tokenize cs)
      else if c = CHR ''['' then emit TLBrack (tokenize cs)
      else if c = CHR '']'' then emit TRBrack (tokenize cs)
      else if c = CHR '':'' then emit TColon (tokenize cs)
      else if c = CHR '','' then emit TComma (tokenize cs)
      else if c = CHR 0x22 then
        (case lex_string [] cs of
           None \<Rightarrow> None
         | Some (s, rest) \<Rightarrow> emit (TVal (PStr s)) (tokenize rest))
      else if starts_with ''null'' (c # cs) then emit (TVal PNone) (tokenize (drop 3 cs))
      else if starts_with ''true'' (c # cs) then emit (TVal (PBool True)) (tokenize (drop 3 cs))
      else if starts_with ''false'' (c # cs) then emit (TVal (PBool False)) (tokenize (drop 4 cs))
      else
        (case lex_number (c # cs) of
           Some (v, rest) \<Rightarrow> emit (TVal v) (tokenize rest)
         | None \<Rightarrow>
             if starts_with ''NaN'' (c # cs) then emit (TVal (PFloat NaN)) (tokenize (drop 2 cs))
             else if starts_with ''Infinity'' (c # cs)
               then emit (TVal (PFloat PosInf)) (tokenize (drop 7 cs))
             else if starts_with ''-Infinity'' (c # cs)
               then emit (TVal (PFloat NegInf)) (tokenize (drop 8 cs))
             else None))"
  by pat_completeness auto
termination
  by (relation "measure length")
     (auto dest: lex_string_shorter lex_number_shorter intro: le_imp_less_Suc)

text \<open>Reading the tokens. An entry of the stack is an open list with its elements so far, an
  open dict, or an open dict with a key whose value is being read. A key that occurs twice in
  an object keeps its place and takes the later value, as a Python dict does.\<close>

datatype container =
    FList "pyval list"
  | FDict "(string \<times> pyval) list"
  | FKey "(string \<times> pyval) list" string

datatype mode = MValue | MFirstElem | MFirstKey | MKey | MColon | MAfter | MDone pyval

definition complete :: "pyval \<Rightarrow> container list \<Rightarrow> (mode \<times> container list) option" where
  "complete v st =
     (case st of
        [] \<Rightarrow> Some (MDone v, [])
      | FList xs # st' \<Rightarrow> Some (MAfter, FList (xs @ [v]) # st')
      | FKey d k # st' \<Rightarrow> Some (MAfter, FDict (dict_set d k v) # st')
      | FDict d # st' \<Rightarrow> None)"

definition open_value :: "token \<Rightarrow> container list \<Rightarrow> (mode \<times> container list) option" where
  "open_value t st =
     (case t of
        TVal v \<Rightarrow> complete v st
      | TLBrack \<Rightarrow> Some (MFirstElem, FList [] # st)
      | TLBrace \<Rightarrow> Some (MFirstKey, FDict [] # st)
      | _ \<Rightarrow> None)"

definition open_key :: "token \<Rightarrow> container list \<Rightarrow> (mode \<times> container list) option" where
  "open_key t st =
     (case (t, st) of
        (TVal (PStr k), FDict d # st') \<Rightarrow> Some (MColon, FKey d k # st')
      | _ \<Rightarrow> None)"

definition step :: "mode \<Rightarrow> container list \<Rightarrow> token \<Rightarrow> (mode \<times> container list) option" where
  "step m st t =
     (case m of
        MValue \<Rightarrow> open_value t st
      | MFirstElem \<Rightarrow>
          (case (t, st) of
             (TRBrack, FList xs # st') \<Rightarrow> complete (PList xs) st'
           | _ \<Rightarrow> open_value t st)
      | MFirstKey \<Rightarrow>
          (case (t, st) of
             (TRBrace, FDict d # st') \<Rightarrow> complete (PDict d) st'
           | _ \<Rightarrow> open_key t st)
      | MKey \<Rightarrow> open_key t st
      | MColon \<Rightarrow> (case t of TColon \<Rightarrow> Some (MValue, st) | _ \<Rightarrow> None)
      | MAfter \<Rightarrow>
          (case (t, st) of
             (TComma, FList xs # st') \<Rightarrow> Some (MValue, st)
           | (TRBrack, FList xs # st') \<Rightarrow> complete (PList xs) st'
           | (TComma, FDict d # st') \<Rightarrow> Some (MKey, st)
           | (TRBrace, FDict d # st') \<Rightarrow> complete (PDict d) st'
           | _ \<Rightarrow> None)
      | MDone v \<Rightarrow> None)"

fun read_tokens :: "mode \<Rightarrow> container list \<Rightarrow> token list \<Rightarrow> pyval option" where
  "read_tokens m st [] = (case m of MDone v \<Rightarrow> Some v | _ \<Rightarrow> None)"
| "read_tokens m st (t # ts) =
     (case step m st t of
        None \<Rightarrow> None
      | Some (m', st') \<Rightarrow> read_tokens m' st' ts)"

text \<open>\<^verbatim>\<open>json.loads(value)\<close>: \<^verbatim>\<open>TypeError\<close> for an argument that is not text.\<close>

definition json_loads :: "pyval \<Rightarrow> exn + pyval" where
  "json_loads v =
     (case v of
        PStr s \<Rightarrow>
          (case tokenize s of
             None \<Rightarrow> Inl JSONDecodeError
           | Some ts \<Rightarrow>
               (case read_tokens MValue [] ts of
                  None \<Rightarrow> Inl JSONDecodeError
                | Some r \<Rightarrow> Inr r))
      | _ \<Rightarrow> Inl TypeError)"

section \<open>The embedded-JSON column parser\<close>

text \<open>\<^verbatim>\<open>parse_json_column\<close> (concat\_jobs.py, lines 19-28). The \<^verbatim>\<open>except\<close> clause
  catches \<^verbatim>\<open>JSONDecodeError\<close> and \<^verbatim>\<open>TypeError\<close>; any other exception would leave
  the function.\<close>

definition parse_json_column :: "pyval \<Rightarrow> exn + pyval" where
  "parse_json_column v =
     (if pd_isna v \<or> v = PStr [] then Inr PNone
      else if is_dict v then Inr v
      else (case json_loads v of
              Inr r \<Rightarrow> Inr r
            | Inl e \<Rightarrow> if e = JSONDecodeError \<or> e = TypeError then Inr PNone else Inl e))"

section \<open>Frames\<close>

text \<open>
  A DataFrame is its column names and its rows; a row, as \<^verbatim>\<open>iterrows\<close> hands it out, maps
  each column name to the cell. \<^verbatim>\<open>row[k]\<close> raises \<^verbatim>\<open>KeyError\<close> for a column the frame
  does not have; \<^verbatim>\<open>row.get(k)\<close> gives \<^verbatim>\<open>None\<close> there. A run that raises has the result
  \<open>None\<close> from here on: no exception of the assembly is caught.

  pandas may store a cell in another type when it unifies the type of a column (an integer
  as the float of the same value, \<^verbatim>\<open>None\<close> as NaN); this is not modelled, cells keep their
  values.
\<close>

type_synonym row = "(string \<times> pyval) list"

record frame =
  columns :: "string list"
  rows :: "row list"

definition row_item :: "row \<Rightarrow> string \<Rightarrow> pyval option" where
  "row_item row k = map_of row k"

definition row_get :: "row \<Rightarrow> string \<Rightarrow> pyval" where
  "row_get row k = (case map_of row k of None \<Rightarrow> PNone | Some v \<Rightarrow> v)"

fun mapM :: "('a \<Rightarrow> 'b option) \<Rightarrow> 'a list \<Rightarrow> 'b list option" where
  "mapM f [] = Some []"
| "mapM f (x # xs) = do { y \<leftarrow> f x; ys \<leftarrow> mapM f xs; Some (y # ys) }"

text \<open>\<^verbatim>\<open>df[c] = v\<close> with a scalar: every row gets that cell, in a new last column when the
  frame has no column of that name.\<close>

definition set_column :: "frame \<Rightarrow> string \<Rightarrow> pyval \<Rightarrow> frame" where
  "set_column df c v =
     \<lparr>columns = (if c \<in> set (columns df) then columns df else columns df @ [c]),
      rows = map (\<lambda>r. dict_set r c v) (rows df)\<rparr>"

text \<open>\<^verbatim>\<open>pd.concat([a, b], ignore_index=True)\<close>: the columns of \<open>a\<close>, then those only \<open>b\<close> has;
  the rows of \<open>a\<close>, then the rows of \<open>b\<close>, each with NaN in the columns its frame lacks.\<close>

definition reindex :: "string list \<Rightarrow> row \<Rightarrow> row" where
  "reindex cols r = map (\<lambda>c. (c, case map_of r c of None \<Rightarrow> PFloat NaN | Some v \<Rightarrow> v)) cols"

definition pd_concat :: "frame \<Rightarrow> frame \<Rightarrow> frame" where
  "pd_concat a b =
     (let cols = columns a @ filter (\<lambda>c. c \<notin> set (columns a)) (columns b)
      in \<lparr>columns = cols, rows = map (reindex cols) (rows a) @ map (reindex cols) (rows b)\<rparr>)"

text \<open>\<^verbatim>\<open>normalize_job_schemas\<close> (concat\_jobs.py, lines 46-72).\<close>

definition normalize_job_schemas :: "frame \<Rightarrow> frame \<Rightarrow> frame" where
  "normalize_job_schemas jobs_active jobs_archived =
     (let jobs_active1 =
            (if ''original_id'' \<notin> set (columns jobs_active)
             then set_column jobs_active ''original_id'' PNone
             else jobs_active);
          jobs_active2 = set_column jobs_active1 ''source_table'' (PStr ''active'');
          jobs_archived1 = set_column jobs_archived ''source_table'' (PStr ''archived'')
      in pd_concat jobs_active2 jobs_archived1)"

text \<open>\<^verbatim>\<open>parse_categorized_data\<close> (lines 75-79): the parser applied to every cell of the
  column \<^verbatim>\<open>CategorizedData\<close>.\<close>

definition parse_cell :: "row \<Rightarrow> row option" where
  "parse_cell r =
     (case map_of r ''CategorizedData'' of
        None \<Rightarrow> None
      | Some v \<Rightarrow>
          (case parse_json_column v of
             Inl e \<Rightarrow> None
           | Inr p \<Rightarrow> Some (dict_set r ''CategorizedData'' p)))"

definition parse_categorized_data :: "frame \<Rightarrow> frame option" where
  "parse_categorized_data jobs =
     (if ''CategorizedData'' \<notin> set (columns jobs) then None
      else do { rs \<leftarrow> mapM parse_cell (rows jobs); Some (jobs\<lparr>rows := rs\<rparr>) })"

section \<open>Conversions\<close>

text \<open>\<^verbatim>\<open>bool(x)\<close> and \<^verbatim>\<open>int(x)\<close>. \<^verbatim>\<open>int\<close> truncates a finite float towards zero, reads
  a decimal integer from a string (surrounding whitespace, a sign, single underscores between
  digits) and raises otherwise.\<close>

definition py_bool :: "pyval \<Rightarrow> bool" where
  "py_bool v =
     (case v of
        PNone \<Rightarrow> False
      | PBool b \<Rightarrow> b
      | PInt i \<Rightarrow> i \<noteq> 0
      | PFloat f \<Rightarrow> f \<noteq> Finite 0
      | PStr s \<Rightarrow> s \<noteq> []
      | PList xs \<Rightarrow> xs \<noteq> []
      | PDict d \<Rightarrow> d \<noteq> [])"

definition is_space :: "char \<Rightarrow> bool" where
  "is_space c \<longleftrightarrow> c \<in> set [CHR 0x20, CHR 0x09, CHR 0x0A, CHR 0x0B, CHR 0x0C, CHR 0x0D]"

definition strip :: "string \<Rightarrow> string" where
  "strip s = rev (dropWhile is_space (rev (dropWhile is_space s)))"

fun underscores_ok :: "string \<Rightarrow> bool" where
  "underscores_ok (a # b # cs) =
     ((is_digit a \<or> (a = CHR ''_'' \<and> is_digit b)) \<and> underscores_ok (b # cs))"
| "underscores_ok [a] = is_digit a"
| "underscores_ok [] = False"

definition int_of_str :: "string \<Rightarrow> int option" where
  "int_of_str s =
     (let t = strip s;
          (neg, body) = (case t of
                           c # r \<Rightarrow> if c = CHR ''-'' then (True, r)
                                    else if c = CHR ''+'' then (False, r)
                                    else (False, t)
                         | [] \<Rightarrow> (False, t))
      in if body \<noteq> [] \<and> is_digit (hd body) \<and> underscores_ok body
         then Some ((if neg then - 1 else 1) * int (digits_val (filter is_digit body)))
         else None)"

definition py_int :: "pyval \<Rightarrow> int option" where
  "py_int v =
     (case v of
        PBool b \<Rightarrow> Some (if b then 1 else 0)
      | PInt i \<Rightarrow> Some i
      | PFloat f \<Rightarrow>
          (case f of
             Finite r \<Rightarrow> Some (if 0 \<le> r then \<lfloor>r\<rfloor> else \<lceil>r\<rceil>)
           | _ \<Rightarrow> None)
      | PStr s \<Rightarrow> int_of_str s
      | _ \<Rightarrow> None)"

text \<open>The conditional expressions of the record literals:
  \<^verbatim>\<open>row[k] if pd.notna(row[k]) else None\<close>,
  \<^verbatim>\<open>int(row[k]) if pd.notna(row[k]) else None\<close>,
  \<^verbatim>\<open>bool(row[k]) if pd.notna(row[k]) else False\<close>,
  \<^verbatim>\<open>int(row[k]) if pd.notna(row[k]) else 0\<close>, and the plain \<^verbatim>\<open>row[k]\<close>.\<close>

definition opt_raw :: "row \<Rightarrow> string \<Rightarrow> pyval option" where
  "opt_raw row k = do { v \<leftarrow> row_item row k; Some (if pd_notna v then v else PNone) }"

definition opt_int :: "row \<Rightarrow> string \<Rightarrow> pyval option" where
  "opt_int row k =
     do { v \<leftarrow> row_item row k;
          if pd_notna v then map_option PInt (py_int v) else Some PNone }"

definition flag :: "row \<Rightarrow> string \<Rightarrow> pyval option" where
  "flag row k = do { v \<leftarrow> row_item row k; Some (PBool (if pd_notna v then py_bool v else False)) }"

definition count0 :: "row \<Rightarrow> string \<Rightarrow> pyval option" where
  "count0 row k =
     do { v \<leftarrow> row_item row k;
          if pd_notna v then map_option PInt (py_int v) else Some (PInt 0) }"

section \<open>Lookup indices\<close>

text \<open>
  \<^verbatim>\<open>employer_lookup\<close> and \<^verbatim>\<open>jobsource_lookup\<close> are dicts keyed by the cell of the
  identifier column. Keys are compared as Python compares them: numbers by value (the int 10
  and the float 10.0 are one key), a NaN equal to no key, a list or dict not hashable
  (\<^verbatim>\<open>TypeError\<close>). A store to an existing key keeps the key's place and replaces the value.
\<close>

type_synonym lookup = "(pyval \<times> row) list"

definition num_of :: "pyval \<Rightarrow> rat option" where
  "num_of v =
     (case v of
        PBool b \<Rightarrow> Some (if b then 1 else 0)
      | PInt i \<Rightarrow> Some (of_int i)
      | PFloat f \<Rightarrow> (case f of Finite r \<Rightarrow> Some r | _ \<Rightarrow> None)
      | _ \<Rightarrow> None)"

definition key_eq :: "pyval \<Rightarrow> pyval \<Rightarrow> bool" where
  "key_eq a b =
     (case (num_of a, num_of b) of
        (Some x, Some y) \<Rightarrow> x = y
      | (None, None) \<Rightarrow> a = b \<and> a \<noteq> PFloat NaN
      | _ \<Rightarrow> False)"

definition hashable :: "pyval \<Rightarrow> bool" where
  "hashable v \<longleftrightarrow> \<not> is_list v \<and> \<not> is_dict v"

fun lookup_find :: "lookup \<Rightarrow> pyval \<Rightarrow> row option" where
  "lookup_find [] k = None"
| "lookup_find ((k', e) # lk) k = (if key_eq k' k then Some e else lookup_find lk k)"

fun lookup_set :: "lookup \<Rightarrow> pyval \<Rightarrow> row \<Rightarrow> lookup" where
  "lookup_set [] k e = [(k, e)]"
| "lookup_set ((k', e') # lk) k e =
     (if key_eq k' k then (k', e) # lk else (k', e') # lookup_set lk k e)"

definition lookup_contains :: "lookup \<Rightarrow> pyval \<Rightarrow> bool option" where
  "lookup_contains lk k = (if hashable k then Some (lookup_find lk k \<noteq> None) else None)"

definition lookup_store :: "lookup \<Rightarrow> pyval \<Rightarrow> row \<Rightarrow> lookup option" where
  "lookup_store lk k e = (if hashable k then Some (lookup_set lk k e) else None)"

fun fill_lookup :: "(row \<Rightarrow> (pyval \<times> row) option) \<Rightarrow> row list \<Rightarrow> lookup \<Rightarrow> lookup option" where
  "fill_lookup entry [] lk = Some lk"
| "fill_lookup entry (row # rest) lk =
     do { (k, e) \<leftarrow> entry row;
          lk' \<leftarrow> lookup_store lk k e;
          fill_lookup entry rest lk' }"

text \<open>The two loops of \<^verbatim>\<open>build_unified_structure\<close> that fill the indices (lines 100-122).\<close>

definition employer_entry :: "row \<Rightarrow> (pyval \<times> row) option" where
  "employer_entry row =
     do { employer_id \<leftarrow> row_item row ''id'';
          name \<leftarrow> opt_raw row ''name'';
          alt_name \<leftarrow> opt_raw row ''alt_name'';
          logo_url \<leftarrow> opt_raw row ''logo_url'';
          fh \<leftarrow> flag row ''fh'';
          jobscount \<leftarrow> count0 row ''jobscount'';
          jobscount_online \<leftarrow> count0 row ''jobscount_online'';
          Some (employer_id,
                [(''id'', employer_id), (''name'', name), (''alt_name'', alt_name),
                 (''logo_url'', logo_url), (''fh'', fh), (''jobscount'', jobscount),
                 (''jobscount_online'', jobscount_online)]) }"

definition jobsource_entry :: "row \<Rightarrow> (pyval \<times> row) option" where
  "jobsource_entry row =
     do { source_id \<leftarrow> row_item row ''jobsource_id'';
          jobsource \<leftarrow> opt_raw row ''jobsource'';
          description \<leftarrow> opt_raw row ''description'';
          Some (source_id,
                [(''jobsource_id'', source_id), (''jobsource'', jobsource),
                 (''description'', description)]) }"

section \<open>Job records\<close>

text \<open>The record literal of lines 127-147: each key with the expression that computes its
  value, in the order of the source.\<close>

definition plain :: "row \<Rightarrow> string \<Rightarrow> pyval option" where
  "plain row k = row_item row k"

definition job_fields :: "(string \<times> (row \<Rightarrow> string \<Rightarrow> pyval option)) list" where
  "job_fields =
     [(''id'', opt_int),
      (''job_title'', opt_raw),
      (''url'', opt_raw),
      (''department'', opt_raw),
      (''level'', opt_raw),
      (''location'', opt_raw),
      (''schedule'', opt_raw),
      (''main'', flag),
      (''sync'', flag),
      (''ignore'', flag),
      (''removed'', flag),
      (''manual'', flag),
      (''Archived'', flag),
      (''ideal'', flag),
      (''created_at'', opt_raw),
      (''updated_at'', opt_raw),
      (''source_table'', plain),
      (''CategorizedData'', plain),
      (''clicks'', count0)]"

definition job_base :: "row \<Rightarrow> row option" where
  "job_base row = mapM (\<lambda>(k, f). map_option (Pair k) (f row k)) job_fields"

text \<open>Lines 149-159: the optional fields.\<close>

definition add_optional :: "bool \<Rightarrow> row \<Rightarrow> string \<Rightarrow> row \<Rightarrow> row option" where
  "add_optional wanted row k job_entry =
     (if wanted then do { v \<leftarrow> opt_raw row k; Some (dict_set job_entry k v) }
      else Some job_entry)"

definition add_original_id :: "row \<Rightarrow> row \<Rightarrow> row option" where
  "add_original_id row job_entry =
     (if pd_notna (row_get row ''original_id'')
      then do { v \<leftarrow> row_item row ''original_id'';
                i \<leftarrow> py_int v;
                Some (dict_set job_entry ''original_id'' (PInt i)) }
      else Some job_entry)"

text \<open>Lines 161-185: the two foreign keys. \<^verbatim>\<open>and\<close> does not look the key up when the cell
  is missing.\<close>

definition resolves :: "lookup \<Rightarrow> pyval \<Rightarrow> bool option" where
  "resolves lk fk = (if pd_notna fk then lookup_contains lk fk else Some False)"

definition employer_ref :: "row \<Rightarrow> pyval option" where
  "employer_ref employer =
     do { i \<leftarrow> row_item employer ''id'';
          n \<leftarrow> row_item employer ''name'';
          a \<leftarrow> row_item employer ''alt_name'';
          l \<leftarrow> row_item employer ''logo_url'';
          Some (PDict [(''id'', i), (''name'', n), (''alt_name'', a), (''logo_url'', l)]) }"

definition jobsource_ref :: "row \<Rightarrow> pyval option" where
  "jobsource_ref source =
     do { i \<leftarrow> row_item source ''jobsource_id'';
          j \<leftarrow> row_item source ''jobsource'';
          Some (PDict [(''jobsource_id'', i), (''jobsource'', j)]) }"

definition resolve_employer :: "lookup \<Rightarrow> row \<Rightarrow> row \<Rightarrow> row option" where
  "resolve_employer employer_lookup row job_entry =
     do { employer_id \<leftarrow> row_item row ''employer_id'';
          found \<leftarrow> resolves employer_lookup employer_id;
          if found
          then do { employer \<leftarrow> lookup_find employer_lookup employer_id;
                    ref \<leftarrow> employer_ref employer;
                    Some (dict_set job_entry ''employer'' ref) }
          else Some (dict_set (dict_set job_entry ''employer'' PNone) ''employer_id''
                       (if pd_notna employer_id then employer_id else PNone)) }"

definition resolve_jobsource :: "lookup \<Rightarrow> row \<Rightarrow> row \<Rightarrow> row option" where
  "resolve_jobsource jobsource_lookup row job_entry =
     do { jobsource_id \<leftarrow> row_item row ''jobsource_id'';
          found \<leftarrow> resolves jobsource_lookup jobsource_id;
          if found
          then do { source \<leftarrow> lookup_find jobsource_lookup jobsource_id;
                    ref \<leftarrow> jobsource_ref source;
                    Some (dict_set job_entry ''jobsource'' ref) }
          else Some (dict_set (dict_set job_entry ''jobsource'' PNone) ''jobsource_id''
                       (if pd_notna jobsource_id then jobsource_id else PNone)) }"

definition job_entry :: "bool \<Rightarrow> bool \<Rightarrow> lookup \<Rightarrow> lookup \<Rightarrow> row \<Rightarrow> row option" where
  "job_entry include_embeddings include_descriptions employer_lookup jobsource_lookup row =
     do { e0 \<leftarrow> job_base row;
          e1 \<leftarrow> add_optional include_descriptions row ''description'' e0;
          e2 \<leftarrow> add_optional include_embeddings row ''job_embedding'' e1;
          e3 \<leftarrow> add_original_id row e2;
          e4 \<leftarrow> resolve_employer employer_lookup row e3;
          resolve_jobsource jobsource_lookup row e4 }"

section \<open>The unified document\<close>

text \<open>\<^verbatim>\<open>build_unified_structure\<close> (lines 82-206). The generation time is a parameter.\<close>

definition count_table :: "string \<Rightarrow> row list \<Rightarrow> pyval" where
  "count_table t jobs_list =
     PInt (int (length (filter (\<lambda>j. map_of j ''source_table'' = Some (PStr t)) jobs_list)))"

definition build_unified_structure ::
  "string \<Rightarrow> frame \<Rightarrow> frame \<Rightarrow> frame \<Rightarrow> bool \<Rightarrow> bool \<Rightarrow> pyval option" where
  "build_unified_structure now jobs employers jobsources include_embeddings include_descriptions =
     do { employer_lookup \<leftarrow> fill_lookup employer_entry (rows employers) [];
          jobsource_lookup \<leftarrow> fill_lookup jobsource_entry (rows jobsources) [];
          jobs_list \<leftarrow> mapM (job_entry include_embeddings include_descriptions
                               employer_lookup jobsource_lookup) (rows jobs);
          Some (PDict
            [(''metadata'', PDict
               [(''generated_at'', PStr now),
                (''total_jobs'', PInt (int (length jobs_list))),
                (''active_jobs'', count_table ''active'' jobs_list),
                (''archived_jobs'', count_table ''archived'' jobs_list),
                (''total_employers'', PInt (int (length employer_lookup))),
                (''total_jobsources'', PInt (int (length jobsource_lookup))),
                (''include_embeddings'', PBool include_embeddings),
                (''include_descriptions'', PBool include_descriptions)]),
             (''employers'', PList (map (PDict \<circ> snd) employer_lookup)),
             (''jobsources'', PList (map (PDict \<circ> snd) jobsource_lookup)),
             (''jobs'', PList (map PDict jobs_list))]) }"

text \<open>\<^verbatim>\<open>main\<close> of concat\_jobs.py between reading the four CSV files and writing the
  document (lines 245-257).\<close>

definition concat_jobs_main ::
  "string \<Rightarrow> frame \<Rightarrow> frame \<Rightarrow> frame \<Rightarrow> frame \<Rightarrow> bool \<Rightarrow> bool \<Rightarrow> pyval option" where
  "concat_jobs_main now jobs_active jobs_archived employers jobsources
       include_embeddings include_descriptions =
     do { all_jobs \<leftarrow> parse_categorized_data (normalize_job_schemas jobs_active jobs_archived);
          build_unified_structure now all_jobs employers jobsources
            include_embeddings include_descriptions }"

text \<open>Reading a document: \<^verbatim>\<open>doc[k]\<close>, and the dicts of a list of records.\<close>

definition item :: "pyval \<Rightarrow> string \<Rightarrow> pyval option" where
  "item v k = (case v of PDict d \<Rightarrow> map_of d k | _ \<Rightarrow> None)"

definition records :: "pyval \<Rightarrow> string \<Rightarrow> row list option" where
  "records doc k =
     (case item doc k of
        Some (PList xs) \<Rightarrow> mapM (\<lambda>x. case x of PDict d \<Rightarrow> Some d | _ \<Rightarrow> None) xs
      | _ \<Rightarrow> None)"

section \<open>The projection\<close>

text \<open>
  \<^verbatim>\<open>main\<close> of concat\_jobs\_freshdataset.py between loading the unified document and
  writing the reduced one (lines 47-58). \<^verbatim>\<open>unified_data.get(k, [])\<close> needs a dict, the
  \<^verbatim>\<open>for\<close> loop needs something to iterate over (a list; a dict gives its keys and a string
  its characters), and \<^verbatim>\<open>job.items()\<close> needs a dict. The function builds new lists
  and dicts and assigns to no part of \<^verbatim>\<open>unified_data\<close>, so the model returns the new
  document only.
\<close>

definition dict_get :: "(string \<times> pyval) list \<Rightarrow> string \<Rightarrow> pyval \<Rightarrow> pyval" where
  "dict_get d k dflt = (case map_of d k of None \<Rightarrow> dflt | Some v \<Rightarrow> v)"

definition py_iter :: "pyval \<Rightarrow> pyval list option" where
  "py_iter v =
     (case v of
        PList xs \<Rightarrow> Some xs
      | PDict d \<Rightarrow> Some (map (\<lambda>(k, x). PStr k) d)
      | PStr s \<Rightarrow> Some (map (\<lambda>c. PStr [c]) s)
      | _ \<Rightarrow> None)"

definition job_copy :: "pyval \<Rightarrow> pyval option" where
  "job_copy job =
     (case job of
        PDict d \<Rightarrow> Some (PDict (filter (\<lambda>(k, v). k \<noteq> ''CategorizedData'') d))
      | _ \<Rightarrow> None)"

definition freshdataset_main :: "pyval \<Rightarrow> pyval option" where
  "freshdataset_main unified_data =
     (case unified_data of
        PDict d \<Rightarrow>
          do { js \<leftarrow> py_iter (dict_get d ''jobs'' (PList []));
               jobs_cleaned \<leftarrow> mapM job_copy js;
               Some (PDict
                 [(''employers'', dict_get d ''employers'' (PList [])),
                  (''jobsources'', dict_get d ''jobsources'' (PList [])),
                  (''jobs'', PList jobs_cleaned)]) }
      | _ \<Rightarrow> None)"


section \<open>Values the parser is stated for\<close>


section \<open>An example run\<close>

text \<open>Small frames with the columns the scripts read: one active job, one archived job with
  a prior identifier, an employer that occurs twice, one job source; and two more active
  relations, one with a column \<^verbatim>\<open>original_id\<close>, one whose embedded metadata is a JSON
  string literal.\<close>

definition job_columns :: "string list" where
  "job_columns =
     [''id'', ''job_title'', ''url'', ''department'', ''level'', ''location'', ''schedule'',
      ''main'', ''sync'', ''ignore'', ''removed'', ''manual'', ''Archived'', ''ideal'',
      ''created_at'', ''updated_at'', ''CategorizedData'', ''clicks'', ''description'',
      ''job_embedding'', ''employer_id'', ''jobsource_id'']"

definition make_frame :: "string list \<Rightarrow> pyval list list \<Rightarrow> frame" where
  "make_frame cols cells = \<lparr>columns = cols, rows = map (zip cols) cells\<rparr>"

definition ex_active :: frame where
  \<open>ex_active = make_frame job_columns
     [[PInt 1, PStr ''Developer'', PFloat NaN, PFloat NaN, PFloat NaN, PFloat NaN, PFloat NaN,
       PBool True, PFloat NaN, PFloat NaN, PFloat NaN, PFloat NaN, PFloat NaN, PFloat NaN,
       PFloat NaN, PFloat NaN, PStr ''{"field": "it"}'', PInt 3, PStr ''Writes code'',
       PStr ''[0.1]'', PInt 10, PFloat NaN]]\<close>

definition ex_archived :: frame where
  \<open>ex_archived = make_frame (job_columns @ [''original_id''])
     [[PInt 2, PStr ''Operator'', PFloat NaN, PFloat NaN, PFloat NaN, PFloat NaN, PFloat NaN,
       PBool False, PFloat NaN, PFloat NaN, PFloat NaN, PFloat NaN, PFloat NaN, PFloat NaN,
       PFloat NaN, PFloat NaN, PStr ''{invalid'', PFloat NaN, PFloat NaN,
       PFloat NaN, PFloat (Finite 11), PInt 1, PInt 99]]\<close>


definition ex_active_literal :: frame where
  \<open>ex_active_literal = make_frame job_columns
     [[PInt 1, PStr ''Developer'', PFloat NaN, PFloat NaN, PFloat NaN, PFloat NaN, PFloat NaN,
       PBool True, PFloat NaN, PFloat NaN, PFloat NaN, PFloat NaN, PFloat NaN, PFloat NaN,
       PFloat NaN, PFloat NaN, PStr ''"hello"'', PInt 3, PFloat NaN,
       PFloat NaN, PInt 10, PFloat NaN]]\<close>

definition ex_employers :: frame where
  "ex_employers = make_frame
     [''id'', ''name'', ''alt_name'', ''logo_url'', ''fh'', ''jobscount'', ''jobscount_online'']
     [[PInt 10, PStr ''Acme'', PFloat NaN, PFloat NaN, PBool True, PInt 4, PFloat NaN],
      [PInt 10, PStr ''Acme AG'', PFloat NaN, PStr ''acme.png'', PBool True, PInt 5, PInt 2]]"

definition ex_jobsources :: frame where
  "ex_jobsources = make_frame [''jobsource_id'', ''jobsource'', ''description'']
     [[PInt 1, PStr ''web'', PStr ''Found on the web'']]"

section \<open>Notions used in the statements\<close>

text \<open>A foreign key resolves against an index when the cell is present and the index has an
  equal key.\<close>

definition resolved :: "lookup \<Rightarrow> pyval \<Rightarrow> bool" where
  "resolved lk fk \<longleftrightarrow> pd_notna fk \<and> lookup_find lk fk \<noteq> None"

text \<open>The same, read off the reference relation: some row has an equal identifier.\<close>

definition in_collection :: "row list \<Rightarrow> string \<Rightarrow> pyval \<Rightarrow> bool" where
  "in_collection ref_rows id_col fk \<longleftrightarrow>
     list_ex (\<lambda>r. case row_item r id_col of Some k \<Rightarrow> key_eq k fk | None \<Rightarrow> False) ref_rows"

definition resolution_rule :: "bool \<Rightarrow> pyval \<Rightarrow> pyval option \<Rightarrow> pyval option \<Rightarrow> bool" where
  "resolution_rule present fk ref raw \<longleftrightarrow>
     (if present
      then (case ref of Some v \<Rightarrow> is_dict v | None \<Rightarrow> False) \<and> raw = None
      else ref = Some PNone \<and> raw = Some (if pd_notna fk then fk else PNone))"

definition job_field :: "pyval option \<Rightarrow> nat \<Rightarrow> string \<Rightarrow> pyval option" where
  "job_field doc i k =
     (case doc of
        Some d \<Rightarrow>
          (case records d ''jobs'' of
             Some js \<Rightarrow> if i < length js then map_of (js ! i) k else None
           | None \<Rightarrow> None)
      | None \<Rightarrow> None)"

definition collection :: "pyval option \<Rightarrow> string \<Rightarrow> row list option" where
  "collection doc k = (case doc of Some d \<Rightarrow> records d k | None \<Rightarrow> None)"


text \<open>A job record without the two optional fields.\<close>

definition strip_optional :: "row \<Rightarrow> row" where
  "strip_optional e = filter (\<lambda>(k, v). k \<noteq> ''description'' \<and> k \<noteq> ''job_embedding'') e"

definition doc_item :: "pyval option \<Rightarrow> string \<Rightarrow> pyval option" where
  "doc_item doc k = (case doc of Some d \<Rightarrow> item d k | None \<Rightarrow> None)"

text \<open>The identifier a key stands for (numbers by their value), the rows of a relation that
  no later row with an equal identifier follows, and the invariant of an index while it is
  filled: no two keys for one identifier, no NaN key, and every entry stored under the
  identifier it carries in column \<open>c\<close>.\<close>

definition ident :: "pyval \<Rightarrow> pyval" where
  "ident v = (case num_of v of Some r \<Rightarrow> PFloat (Finite r) | None \<Rightarrow> v)"

definition last_occurrence :: "string \<Rightarrow> row list \<Rightarrow> nat \<Rightarrow> bool" where
  "last_occurrence c rs i \<longleftrightarrow>
     (\<forall>j<length rs. i < j \<longrightarrow> \<not> key_eq (row_get (rs ! j) c) (row_get (rs ! i) c))"

definition good_index :: "string \<Rightarrow> lookup \<Rightarrow> bool" where
  "good_index c lk \<longleftrightarrow>
     distinct (map (\<lambda>p. ident (fst p)) lk)
   \<and> (\<forall>p\<in>set lk. fst p \<noteq> PFloat NaN \<and> ident (row_get (snd p) c) = ident (fst p))"

section \<open>Helper facts\<close>

lemma mapM_length: "mapM f xs = Some ys \<Longrightarrow> length ys = length xs"
  by (induction xs arbitrary: ys) (auto split: bind_splits)

lemma mapM_nth: "mapM f xs = Some ys \<Longrightarrow> i < length xs \<Longrightarrow> f (xs ! i) = Some (ys ! i)"
proof (induction xs arbitrary: ys i)
  case Nil
  then show ?case by simp
next
  case (Cons x xs)
  then show ?case by (cases i) (auto split: bind_splits)
qed

lemma mapM_total: "(\<And>x. x \<in> set xs \<Longrightarrow> f x \<noteq> None) \<Longrightarrow> \<exists>ys. mapM f xs = Some ys"
  by (induction xs) (auto split: bind_splits)

lemma mapM_PDict: "mapM (\<lambda>x. case x of PDict d \<Rightarrow> Some d | _ \<Rightarrow> None) (map PDict js) = Some js"
  by (induction js) auto

lemma map_of_dict_set: "map_of (dict_set d k v) k' = (if k' = k then Some v else map_of d k')"
  by (simp add: dict_set_def update_conv')

lemma keys_dict_set:
  "map fst (dict_set d k v) = (if k \<in> fst ` set d then map fst d else map fst d @ [k])"
  by (simp add: dict_set_def update_keys)















lemma records_build:
  assumes "build_unified_structure now jobs employers jobsources ie idesc = Some doc"
  shows "\<exists>elk jlk js.
           fill_lookup employer_entry (rows employers) [] = Some elk
         \<and> fill_lookup jobsource_entry (rows jobsources) [] = Some jlk
         \<and> mapM (job_entry ie idesc elk jlk) (rows jobs) = Some js
         \<and> records doc ''jobs'' = Some js
         \<and> records doc ''employers'' = Some (map snd elk)
         \<and> records doc ''jobsources'' = Some (map snd jlk)
         \<and> item doc ''metadata'' = Some (PDict
               [(''generated_at'', PStr now),
                (''total_jobs'', PInt (int (length js))),
                (''active_jobs'', count_table ''active'' js),
                (''archived_jobs'', count_table ''archived'' js),
                (''total_employers'', PInt (int (length elk))),
                (''total_jobsources'', PInt (int (length jlk))),
                (''include_embeddings'', PBool ie),
                (''include_descriptions'', PBool idesc)])"
proof -
  from assms obtain elk jlk js where
    e: "fill_lookup employer_entry (rows employers) [] = Some elk" and
    j: "fill_lookup jobsource_entry (rows jobsources) [] = Some jlk" and
    m: "mapM (job_entry ie idesc elk jlk) (rows jobs) = Some js" and
    d: "doc = PDict
            [(''metadata'', PDict
               [(''generated_at'', PStr now),
                (''total_jobs'', PInt (int (length js))),
                (''active_jobs'', count_table ''active'' js),
                (''archived_jobs'', count_table ''archived'' js),
                (''total_employers'', PInt (int (length elk))),
                (''total_jobsources'', PInt (int (length jlk))),
                (''include_embeddings'', PBool ie),
                (''include_descriptions'', PBool idesc)]),
             (''employers'', PList (map PDict (map snd elk))),
             (''jobsources'', PList (map PDict (map snd jlk))),
             (''jobs'', PList (map PDict js))]"
    by (auto simp: build_unified_structure_def split: bind_splits)
  have "records doc ''jobs'' = Some js"
    "records doc ''employers'' = Some (map snd elk)"
    "records doc ''jobsources'' = Some (map snd jlk)"
    unfolding d records_def item_def by (simp_all add: mapM_PDict del: map_map)
  moreover have "item doc ''metadata'' = Some (PDict
               [(''generated_at'', PStr now),
                (''total_jobs'', PInt (int (length js))),
                (''active_jobs'', count_table ''active'' js),
                (''archived_jobs'', count_table ''archived'' js),
                (''total_employers'', PInt (int (length elk))),
                (''total_jobsources'', PInt (int (length jlk))),
                (''include_embeddings'', PBool ie),
                (''include_descriptions'', PBool idesc)])"
    unfolding d item_def by simp
  ultimately show ?thesis using e j m by blast
qed

lemma mapM_fields_keys:
  "mapM (\<lambda>(k, f). map_option (Pair k) (g k f)) xs = Some ys \<Longrightarrow> map fst ys = map fst xs"
  by (induction xs arbitrary: ys) (auto split: bind_splits)

lemma mapM_fields_value:
  "mapM (\<lambda>(k, f). map_option (Pair k) (g k f)) xs = Some ys \<Longrightarrow> distinct (map fst xs)
     \<Longrightarrow> (k, f) \<in> set xs \<Longrightarrow> map_of ys k = g k f"
proof (induction xs arbitrary: ys)
  case Nil
  then show ?case by simp
next
  case (Cons x xs)
  then show ?case
    by (cases x) (force split: bind_splits)
qed

lemma job_base_keys: "job_base row = Some e \<Longrightarrow> map fst e = map fst job_fields"
  unfolding job_base_def by (rule mapM_fields_keys)

lemma distinct_job_fields: "distinct (map fst job_fields)"
  by (simp add: job_fields_def)

lemma job_base_value:
  "job_base row = Some e \<Longrightarrow> (k, f) \<in> set job_fields \<Longrightarrow> map_of e k = f row k"
  unfolding job_base_def by (rule mapM_fields_value [OF _ distinct_job_fields])


lemma job_base_CategorizedData:
  "job_base row = Some e \<Longrightarrow> map_of e ''CategorizedData'' = map_of row ''CategorizedData''"
  using job_base_value [of row e "''CategorizedData''" plain]
  by (simp add: job_fields_def plain_def row_item_def)

lemma map_of_None_keys: "k \<notin> set (map fst e) \<Longrightarrow> map_of e k = None"
  by (simp add: map_of_eq_None_iff)

lemma job_base_no_key:
  "job_base row = Some e \<Longrightarrow> k \<notin> set (map fst job_fields) \<Longrightarrow> map_of e k = None"
  by (simp add: job_base_keys map_of_eq_None_iff flip: set_map)

lemma add_optional_cases:
  "add_optional w row k e = Some e' \<Longrightarrow>
     (\<not> w \<and> e' = e) \<or> (w \<and> (\<exists>v. opt_raw row k = Some v \<and> e' = dict_set e k v))"
  by (auto simp: add_optional_def split: if_splits bind_splits)

lemma add_original_id_cases:
  "add_original_id row e = Some e' \<Longrightarrow>
     (\<not> pd_notna (row_get row ''original_id'') \<and> e' = e)
   \<or> (pd_notna (row_get row ''original_id'') \<and> (\<exists>i. e' = dict_set e ''original_id'' (PInt i)))"
  by (auto simp: add_original_id_def split: if_splits bind_splits)

lemma resolves_Some: "resolves lk fk = Some b \<Longrightarrow> b = resolved lk fk"
  by (auto simp: resolves_def resolved_def lookup_contains_def split: if_splits)

lemma resolve_employer_cases:
  assumes "resolve_employer lk row e = Some e'"
  shows "\<exists>fk. row_item row ''employer_id'' = Some fk
     \<and> (if resolved lk fk
        then \<exists>emp ref. lookup_find lk fk = Some emp \<and> employer_ref emp = Some ref
                \<and> e' = dict_set e ''employer'' ref
        else e' = dict_set (dict_set e ''employer'' PNone) ''employer_id''
                    (if pd_notna fk then fk else PNone))"
  using assms
  by (auto simp: resolve_employer_def split: bind_splits if_splits dest!: resolves_Some)

lemma resolve_jobsource_cases:
  assumes "resolve_jobsource lk row e = Some e'"
  shows "\<exists>fk. row_item row ''jobsource_id'' = Some fk
     \<and> (if resolved lk fk
        then \<exists>src ref. lookup_find lk fk = Some src \<and> jobsource_ref src = Some ref
                \<and> e' = dict_set e ''jobsource'' ref
        else e' = dict_set (dict_set e ''jobsource'' PNone) ''jobsource_id''
                    (if pd_notna fk then fk else PNone))"
  using assms
  by (auto simp: resolve_jobsource_def split: bind_splits if_splits dest!: resolves_Some)

lemma job_entry_stages:
  assumes "job_entry ie idesc elk jlk row = Some e"
  obtains e0 e1 e2 e3 e4 where
    "job_base row = Some e0"
    "add_optional idesc row ''description'' e0 = Some e1"
    "add_optional ie row ''job_embedding'' e1 = Some e2"
    "add_original_id row e2 = Some e3"
    "resolve_employer elk row e3 = Some e4"
    "resolve_jobsource jlk row e4 = Some e"
  using assms by (auto simp: job_entry_def split: bind_splits)

text \<open>Each stage touches its own keys only.\<close>

lemma add_optional_other:
  "add_optional w row k e = Some e' \<Longrightarrow> k' \<noteq> k \<Longrightarrow> map_of e' k' = map_of e k'"
  by (auto dest!: add_optional_cases simp: map_of_dict_set)

lemma add_original_id_other:
  "add_original_id row e = Some e' \<Longrightarrow> k' \<noteq> ''original_id'' \<Longrightarrow> map_of e' k' = map_of e k'"
  by (auto dest!: add_original_id_cases simp: map_of_dict_set)

lemma resolve_employer_other:
  "resolve_employer lk row e = Some e' \<Longrightarrow> k' \<noteq> ''employer'' \<Longrightarrow> k' \<noteq> ''employer_id''
     \<Longrightarrow> map_of e' k' = map_of e k'"
  by (auto dest!: resolve_employer_cases simp: map_of_dict_set split: if_splits)

lemma resolve_jobsource_other:
  "resolve_jobsource lk row e = Some e' \<Longrightarrow> k' \<noteq> ''jobsource'' \<Longrightarrow> k' \<noteq> ''jobsource_id''
     \<Longrightarrow> map_of e' k' = map_of e k'"
  by (auto dest!: resolve_jobsource_cases simp: map_of_dict_set split: if_splits)

lemma employer_ref_dict: "employer_ref emp = Some ref \<Longrightarrow>
  \<exists>i n a l. ref = PDict [(''id'', i), (''name'', n), (''alt_name'', a), (''logo_url'', l)]
     \<and> map_of emp ''id'' = Some i \<and> map_of emp ''name'' = Some n
     \<and> map_of emp ''alt_name'' = Some a \<and> map_of emp ''logo_url'' = Some l"
  by (auto simp: employer_ref_def row_item_def split: bind_splits)

lemma jobsource_ref_dict: "jobsource_ref src = Some ref \<Longrightarrow>
  \<exists>i j. ref = PDict [(''jobsource_id'', i), (''jobsource'', j)]
     \<and> map_of src ''jobsource_id'' = Some i \<and> map_of src ''jobsource'' = Some j"
  by (auto simp: jobsource_ref_def row_item_def split: bind_splits)


lemma job_entry_employer:
  assumes "job_entry ie idesc elk jlk row = Some e"
  shows "\<exists>fk. row_item row ''employer_id'' = Some fk
     \<and> (if resolved elk fk
        then (\<exists>emp ref. lookup_find elk fk = Some emp \<and> employer_ref emp = Some ref
                \<and> map_of e ''employer'' = Some ref) \<and> map_of e ''employer_id'' = None
        else map_of e ''employer'' = Some PNone
           \<and> map_of e ''employer_id'' = Some (if pd_notna fk then fk else PNone))"
proof -
  from assms obtain e0 e1 e2 e3 e4 where
    s: "job_base row = Some e0"
    "add_optional idesc row ''description'' e0 = Some e1"
    "add_optional ie row ''job_embedding'' e1 = Some e2"
    "add_original_id row e2 = Some e3"
    "resolve_employer elk row e3 = Some e4"
    "resolve_jobsource jlk row e4 = Some e"
    by (rule job_entry_stages)
  have "map_of e0 ''employer_id'' = None"
    using s(1) by (rule job_base_no_key) (simp add: job_fields_def)
  then have n3: "map_of e3 ''employer_id'' = None"
    using add_optional_other [OF s(2), of "''employer_id''"]
      add_optional_other [OF s(3), of "''employer_id''"]
      add_original_id_other [OF s(4), of "''employer_id''"]
    by simp
  have k: "map_of e ''employer'' = map_of e4 ''employer''"
    "map_of e ''employer_id'' = map_of e4 ''employer_id''"
    using resolve_jobsource_other [OF s(6), of "''employer''"]
      resolve_jobsource_other [OF s(6), of "''employer_id''"]
    by simp_all
  from resolve_employer_cases [OF s(5)] obtain fk where
    fk: "row_item row ''employer_id'' = Some fk" and
    c: "if resolved elk fk
        then \<exists>emp ref. lookup_find elk fk = Some emp \<and> employer_ref emp = Some ref
                \<and> e4 = dict_set e3 ''employer'' ref
        else e4 = dict_set (dict_set e3 ''employer'' PNone) ''employer_id''
                    (if pd_notna fk then fk else PNone)"
    by blast
  show ?thesis
  proof (cases "resolved elk fk")
    case True
    with c obtain emp ref where
      "lookup_find elk fk = Some emp" "employer_ref emp = Some ref"
      "e4 = dict_set e3 ''employer'' ref"
      by auto
    with True fk n3 show ?thesis
      unfolding k by (auto simp: map_of_dict_set)
  next
    case False
    with c have "e4 = dict_set (dict_set e3 ''employer'' PNone) ''employer_id''
                    (if pd_notna fk then fk else PNone)"
      by simp
    with False fk show ?thesis
      unfolding k by (auto simp: map_of_dict_set)
  qed
qed

lemma job_entry_jobsource:
  assumes "job_entry ie idesc elk jlk row = Some e"
  shows "\<exists>fk. row_item row ''jobsource_id'' = Some fk
     \<and> (if resolved jlk fk
        then (\<exists>src ref. lookup_find jlk fk = Some src \<and> jobsource_ref src = Some ref
                \<and> map_of e ''jobsource'' = Some ref) \<and> map_of e ''jobsource_id'' = None
        else map_of e ''jobsource'' = Some PNone
           \<and> map_of e ''jobsource_id'' = Some (if pd_notna fk then fk else PNone))"
proof -
  from assms obtain e0 e1 e2 e3 e4 where
    s: "job_base row = Some e0"
    "add_optional idesc row ''description'' e0 = Some e1"
    "add_optional ie row ''job_embedding'' e1 = Some e2"
    "add_original_id row e2 = Some e3"
    "resolve_employer elk row e3 = Some e4"
    "resolve_jobsource jlk row e4 = Some e"
    by (rule job_entry_stages)
  have "map_of e0 ''jobsource_id'' = None"
    using s(1) by (rule job_base_no_key) (simp add: job_fields_def)
  then have n4: "map_of e4 ''jobsource_id'' = None"
    using add_optional_other [OF s(2), of "''jobsource_id''"]
      add_optional_other [OF s(3), of "''jobsource_id''"]
      add_original_id_other [OF s(4), of "''jobsource_id''"]
      resolve_employer_other [OF s(5), of "''jobsource_id''"]
    by simp
  from resolve_jobsource_cases [OF s(6)] obtain fk where
    fk: "row_item row ''jobsource_id'' = Some fk" and
    c: "if resolved jlk fk
        then \<exists>src ref. lookup_find jlk fk = Some src \<and> jobsource_ref src = Some ref
                \<and> e = dict_set e4 ''jobsource'' ref
        else e = dict_set (dict_set e4 ''jobsource'' PNone) ''jobsource_id''
                    (if pd_notna fk then fk else PNone)"
    by blast
  show ?thesis
  proof (cases "resolved jlk fk")
    case True
    with c obtain src ref where
      "lookup_find jlk fk = Some src" "jobsource_ref src = Some ref"
      "e = dict_set e4 ''jobsource'' ref"
      by auto
    with True fk n4 show ?thesis
      by (auto simp: map_of_dict_set)
  next
    case False
    with c have "e = dict_set (dict_set e4 ''jobsource'' PNone) ''jobsource_id''
                    (if pd_notna fk then fk else PNone)"
      by simp
    with False fk show ?thesis
      by (auto simp: map_of_dict_set)
  qed
qed

lemma job_entry_untouched:
  assumes "job_entry ie idesc elk jlk row = Some e"
    and "k \<notin> {''description'', ''job_embedding'', ''original_id'', ''employer'',
               ''employer_id'', ''jobsource'', ''jobsource_id''}"
  shows "\<exists>e0. job_base row = Some e0 \<and> map_of e k = map_of e0 k"
proof -
  from assms(1) obtain e0 e1 e2 e3 e4 where
    s: "job_base row = Some e0"
    "add_optional idesc row ''description'' e0 = Some e1"
    "add_optional ie row ''job_embedding'' e1 = Some e2"
    "add_original_id row e2 = Some e3"
    "resolve_employer elk row e3 = Some e4"
    "resolve_jobsource jlk row e4 = Some e"
    by (rule job_entry_stages)
  from assms(2) have
    "map_of e1 k = map_of e0 k" "map_of e2 k = map_of e1 k" "map_of e3 k = map_of e2 k"
    "map_of e4 k = map_of e3 k" "map_of e k = map_of e4 k"
    using add_optional_other [OF s(2), of k] add_optional_other [OF s(3), of k]
      add_original_id_other [OF s(4), of k] resolve_employer_other [OF s(5), of k]
      resolve_jobsource_other [OF s(6), of k]
    by simp_all
  with s(1) show ?thesis by simp
qed


lemma job_entry_CategorizedData:
  assumes "job_entry ie idesc elk jlk row = Some e"
  shows "map_of e ''CategorizedData'' = map_of row ''CategorizedData''"
proof -
  from job_entry_untouched [OF assms _, of "''CategorizedData''"]
  obtain e0 where "job_base row = Some e0"
    "map_of e ''CategorizedData'' = map_of e0 ''CategorizedData''"
    by auto
  then show ?thesis by (simp add: job_base_CategorizedData)
qed


lemma job_entry_optional:
  assumes "job_entry ie idesc elk jlk row = Some e"
  shows "(map_of e ''description'' \<noteq> None \<longleftrightarrow> idesc)
       \<and> (map_of e ''job_embedding'' \<noteq> None \<longleftrightarrow> ie)"
proof -
  from assms obtain e0 e1 e2 e3 e4 where
    s: "job_base row = Some e0"
    "add_optional idesc row ''description'' e0 = Some e1"
    "add_optional ie row ''job_embedding'' e1 = Some e2"
    "add_original_id row e2 = Some e3"
    "resolve_employer elk row e3 = Some e4"
    "resolve_jobsource jlk row e4 = Some e"
    by (rule job_entry_stages)
  have b: "map_of e0 ''description'' = None" "map_of e0 ''job_embedding'' = None"
    using s(1) by (auto intro!: job_base_no_key simp: job_fields_def)
  have d: "map_of e ''description'' = map_of e1 ''description''"
    using add_optional_other [OF s(3), of "''description''"]
      add_original_id_other [OF s(4), of "''description''"]
      resolve_employer_other [OF s(5), of "''description''"]
      resolve_jobsource_other [OF s(6), of "''description''"]
    by simp
  have j: "map_of e ''job_embedding'' = map_of e2 ''job_embedding''"
    using add_original_id_other [OF s(4), of "''job_embedding''"]
      resolve_employer_other [OF s(5), of "''job_embedding''"]
      resolve_jobsource_other [OF s(6), of "''job_embedding''"]
    by simp
  have j1: "map_of e1 ''job_embedding'' = None"
    using add_optional_other [OF s(2), of "''job_embedding''"] b(2) by simp
  from add_optional_cases [OF s(2)] add_optional_cases [OF s(3)] b j1 show ?thesis
    unfolding d j by (auto simp: map_of_dict_set)
qed

lemma key_eq_sym: "key_eq a b \<Longrightarrow> key_eq b a"
  by (auto simp: key_eq_def split: option.splits)

lemma key_eq_trans: "key_eq a b \<Longrightarrow> key_eq b c \<Longrightarrow> key_eq a c"
  by (auto simp: key_eq_def split: option.splits)

lemma lookup_find_set:
  "lookup_find (lookup_set lk k0 e) k = None \<longleftrightarrow> lookup_find lk k = None \<and> \<not> key_eq k0 k"
proof (induction lk)
  case Nil
  then show ?case by simp
next
  case (Cons p lk)
  obtain k' e' where p: "p = (k', e')" by (cases p)
  show ?case
  proof (cases "key_eq k' k0")
    case True
    then have "key_eq k0 k \<Longrightarrow> key_eq k' k"
      by (rule key_eq_trans)
    with True show ?thesis
      unfolding p by auto
  next
    case False
    with Cons.IH show ?thesis
      unfolding p by simp
  qed
qed

lemma lookup_find_mem: "lookup_find lk k = Some e \<Longrightarrow> \<exists>k'. (k', e) \<in> set lk \<and> key_eq k' k"
  by (induction lk) (auto split: if_splits)

lemma lookup_set_mem:
  "(k', e') \<in> set (lookup_set lk k e) \<Longrightarrow> (k', e') \<in> set lk \<or> (e' = e \<and> key_eq k' k \<or> e' = e \<and> k' = k)"
  by (induction lk) (auto split: if_splits)

lemma fill_lookup_find:
  "fill_lookup entry rs lk = Some lk' \<Longrightarrow>
     (lookup_find lk' k = None \<longleftrightarrow>
        lookup_find lk k = None \<and> (\<forall>r\<in>set rs. \<forall>k' e. entry r = Some (k', e) \<longrightarrow> \<not> key_eq k' k))"
proof (induction rs arbitrary: lk)
  case Nil
  then show ?case by simp
next
  case (Cons r rs)
  from Cons.prems obtain k0 e0 where
    e: "entry r = Some (k0, e0)" and h: "hashable k0" and
    f: "fill_lookup entry rs (lookup_set lk k0 e0) = Some lk'"
    by (auto simp: lookup_store_def split: bind_splits if_splits)
  from Cons.IH [OF f] e show ?case
    unfolding lookup_find_set by auto
qed

lemma fill_lookup_entries:
  "fill_lookup entry rs lk = Some lk' \<Longrightarrow> (k, e) \<in> set lk' \<Longrightarrow>
     (\<exists>k0. (k0, e) \<in> set lk) \<or> (\<exists>r\<in>set rs. \<exists>k0. entry r = Some (k0, e))"
proof (induction rs arbitrary: lk)
  case Nil
  then show ?case by auto
next
  case (Cons r rs)
  from Cons.prems obtain k0 e0 where
    e: "entry r = Some (k0, e0)" and
    f: "fill_lookup entry rs (lookup_set lk k0 e0) = Some lk'"
    by (auto simp: lookup_store_def split: bind_splits if_splits)
  from Cons.IH [OF f Cons.prems(2)] e show ?case
    by (auto dest: lookup_set_mem)
qed

lemma fill_lookup_all_entries:
  "fill_lookup entry rs lk = Some lk' \<Longrightarrow> r \<in> set rs \<Longrightarrow> \<exists>k e. entry r = Some (k, e) \<and> hashable k"
  by (induction rs arbitrary: lk) (auto simp: lookup_store_def split: bind_splits if_splits)

lemma employer_entry_id: "employer_entry r = Some (k, e) \<Longrightarrow> row_item r ''id'' = Some k"
  by (auto simp: employer_entry_def split: bind_splits)

lemma jobsource_entry_id:
  "jobsource_entry r = Some (k, e) \<Longrightarrow> row_item r ''jobsource_id'' = Some k"
  by (auto simp: jobsource_entry_def split: bind_splits)

lemma employer_index_keys:
  assumes "fill_lookup employer_entry rs [] = Some lk"
  shows "lookup_find lk k \<noteq> None \<longleftrightarrow> (\<exists>r\<in>set rs. \<exists>k'. row_item r ''id'' = Some k' \<and> key_eq k' k)"
proof -
  have "lookup_find lk k \<noteq> None \<longleftrightarrow> (\<exists>r\<in>set rs. \<exists>k' e. employer_entry r = Some (k', e) \<and> key_eq k' k)"
    using fill_lookup_find [OF assms, of k] by auto
  also have "\<dots> \<longleftrightarrow> (\<exists>r\<in>set rs. \<exists>k'. row_item r ''id'' = Some k' \<and> key_eq k' k)"
  proof (intro bex_cong refl iffI)
    fix r assume "r \<in> set rs" "\<exists>k' e. employer_entry r = Some (k', e) \<and> key_eq k' k"
    then show "\<exists>k'. row_item r ''id'' = Some k' \<and> key_eq k' k"
      by (auto dest: employer_entry_id)
  next
    fix r assume r: "r \<in> set rs" and "\<exists>k'. row_item r ''id'' = Some k' \<and> key_eq k' k"
    then obtain k' where k': "row_item r ''id'' = Some k'" "key_eq k' k" by blast
    from fill_lookup_all_entries [OF assms r] obtain k0 e where
      "employer_entry r = Some (k0, e)" by blast
    with k' show "\<exists>k' e. employer_entry r = Some (k', e) \<and> key_eq k' k"
      by (auto dest: employer_entry_id)
  qed
  finally show ?thesis .
qed

lemma jobsource_index_keys:
  assumes "fill_lookup jobsource_entry rs [] = Some lk"
  shows "lookup_find lk k \<noteq> None \<longleftrightarrow>
           (\<exists>r\<in>set rs. \<exists>k'. row_item r ''jobsource_id'' = Some k' \<and> key_eq k' k)"
proof -
  have "lookup_find lk k \<noteq> None \<longleftrightarrow>
          (\<exists>r\<in>set rs. \<exists>k' e. jobsource_entry r = Some (k', e) \<and> key_eq k' k)"
    using fill_lookup_find [OF assms, of k] by auto
  also have "\<dots> \<longleftrightarrow> (\<exists>r\<in>set rs. \<exists>k'. row_item r ''jobsource_id'' = Some k' \<and> key_eq k' k)"
  proof (intro bex_cong refl iffI)
    fix r assume "r \<in> set rs" "\<exists>k' e. jobsource_entry r = Some (k', e) \<and> key_eq k' k"
    then show "\<exists>k'. row_item r ''jobsource_id'' = Some k' \<and> key_eq k' k"
      by (auto dest: jobsource_entry_id)
  next
    fix r assume r: "r \<in> set rs" and "\<exists>k'. row_item r ''jobsource_id'' = Some k' \<and> key_eq k' k"
    then obtain k' where k': "row_item r ''jobsource_id'' = Some k'" "key_eq k' k" by blast
    from fill_lookup_all_entries [OF assms r] obtain k0 e where
      "jobsource_entry r = Some (k0, e)" by blast
    with k' show "\<exists>k' e. jobsource_entry r = Some (k', e) \<and> key_eq k' k"
      by (auto dest: jobsource_entry_id)
  qed
  finally show ?thesis .
qed

lemma in_collection_iff:
  "in_collection rs c fk \<longleftrightarrow> (\<exists>r\<in>set rs. \<exists>k. row_item r c = Some k \<and> key_eq k fk)"
  by (auto simp: in_collection_def list_ex_iff split: option.splits)

lemma resolved_employer:
  "fill_lookup employer_entry rs [] = Some lk \<Longrightarrow>
     resolved lk fk \<longleftrightarrow> pd_notna fk \<and> in_collection rs ''id'' fk"
  unfolding resolved_def in_collection_iff using employer_index_keys [of rs lk fk] by blast

lemma resolved_jobsource:
  "fill_lookup jobsource_entry rs [] = Some lk \<Longrightarrow>
     resolved lk fk \<longleftrightarrow> pd_notna fk \<and> in_collection rs ''jobsource_id'' fk"
  unfolding resolved_def in_collection_iff using jobsource_index_keys [of rs lk fk] by blast

lemma mapM_mem: "mapM f xs = Some ys \<Longrightarrow> y \<in> set ys \<Longrightarrow> \<exists>x\<in>set xs. f x = Some y"
  by (induction xs arbitrary: ys) (auto split: bind_splits)

lemma lookup_find_in: "lookup_find lk k = Some e \<Longrightarrow> e \<in> snd ` set lk"
  by (induction lk) (auto split: if_splits)

lemma employer_entry_shape:
  "employer_entry r = Some (k, e) \<Longrightarrow>
     \<exists>i n a l f c co. e = [(''id'', i), (''name'', n), (''alt_name'', a), (''logo_url'', l),
        (''fh'', f), (''jobscount'', c), (''jobscount_online'', co)]"
  by (auto simp: employer_entry_def split: bind_splits)

lemma jobsource_entry_shape:
  "jobsource_entry r = Some (k, e) \<Longrightarrow>
     \<exists>i j d. e = [(''jobsource_id'', i), (''jobsource'', j), (''description'', d)]"
  by (auto simp: jobsource_entry_def split: bind_splits)

lemma employer_index_shape:
  assumes "fill_lookup employer_entry rs [] = Some lk" "e \<in> snd ` set lk"
  shows "\<exists>i n a l f c co. e = [(''id'', i), (''name'', n), (''alt_name'', a), (''logo_url'', l),
        (''fh'', f), (''jobscount'', c), (''jobscount_online'', co)]"
proof -
  from assms(2) obtain k where "(k, e) \<in> set lk" by auto
  from fill_lookup_entries [OF assms(1) this] obtain r k0 where
    "employer_entry r = Some (k0, e)" by auto
  then show ?thesis by (rule employer_entry_shape)
qed

lemma jobsource_index_shape:
  assumes "fill_lookup jobsource_entry rs [] = Some lk" "e \<in> snd ` set lk"
  shows "\<exists>i j d. e = [(''jobsource_id'', i), (''jobsource'', j), (''description'', d)]"
proof -
  from assms(2) obtain k where "(k, e) \<in> set lk" by auto
  from fill_lookup_entries [OF assms(1) this] obtain r k0 where
    "jobsource_entry r = Some (k0, e)" by auto
  then show ?thesis by (rule jobsource_entry_shape)
qed

lemma filter_dict_set_keep:
  "P k \<Longrightarrow> filter (\<lambda>(k', v). P k') (dict_set d k v) = dict_set (filter (\<lambda>(k', v). P k') d) k v"
  unfolding dict_set_def by (induction d) auto

lemma filter_dict_set_drop:
  "\<not> P k \<Longrightarrow> filter (\<lambda>(k', v). P k') (dict_set d k v) = filter (\<lambda>(k', v). P k') d"
  unfolding dict_set_def by (induction d) auto

lemma strip_dict_set_keep:
  "k \<noteq> ''description'' \<Longrightarrow> k \<noteq> ''job_embedding'' \<Longrightarrow>
     strip_optional (dict_set d k v) = dict_set (strip_optional d) k v"
  unfolding strip_optional_def
  using filter_dict_set_keep [of "\<lambda>k. k \<noteq> ''description'' \<and> k \<noteq> ''job_embedding''" k d v]
  by simp

lemma strip_dict_set_drop:
  "k = ''description'' \<or> k = ''job_embedding'' \<Longrightarrow>
     strip_optional (dict_set d k v) = strip_optional d"
  unfolding strip_optional_def
  using filter_dict_set_drop [of "\<lambda>k. k \<noteq> ''description'' \<and> k \<noteq> ''job_embedding''" k d v]
  by auto

lemma filter_keys_id:
  "\<forall>k\<in>set (map fst e). P k \<Longrightarrow> filter (\<lambda>(k, v). P k) e = e"
  by (induction e) auto

lemma strip_base: "job_base row = Some e0 \<Longrightarrow> strip_optional e0 = e0"
proof -
  assume "job_base row = Some e0"
  then have "map fst e0 = map fst job_fields" by (rule job_base_keys)
  then have "\<forall>k\<in>set (map fst e0). k \<noteq> ''description'' \<and> k \<noteq> ''job_embedding''"
    by (simp add: job_fields_def)
  then show ?thesis
    unfolding strip_optional_def by (rule filter_keys_id)
qed

lemma add_optional_strip:
  "add_optional w row k e = Some e' \<Longrightarrow> k = ''description'' \<or> k = ''job_embedding'' \<Longrightarrow>
     strip_optional e' = strip_optional e"
  by (auto dest!: add_optional_cases simp: strip_dict_set_drop)

lemma add_original_id_strip:
  "add_original_id row e = Some e' \<Longrightarrow>
     add_original_id row (strip_optional e) = Some (strip_optional e')"
  by (auto simp: add_original_id_def strip_dict_set_keep split: if_splits bind_splits)

lemma resolve_employer_strip:
  "resolve_employer lk row e = Some e' \<Longrightarrow>
     resolve_employer lk row (strip_optional e) = Some (strip_optional e')"
  by (auto simp: resolve_employer_def strip_dict_set_keep split: if_splits bind_splits)

lemma resolve_jobsource_strip:
  "resolve_jobsource lk row e = Some e' \<Longrightarrow>
     resolve_jobsource lk row (strip_optional e) = Some (strip_optional e')"
  by (auto simp: resolve_jobsource_def strip_dict_set_keep split: if_splits bind_splits)

lemma job_entry_strip:
  assumes "job_entry ie idesc elk jlk row = Some e"
  shows "job_entry False False elk jlk row = Some (strip_optional e)"
proof -
  from assms obtain e0 e1 e2 e3 e4 where
    s: "job_base row = Some e0"
    "add_optional idesc row ''description'' e0 = Some e1"
    "add_optional ie row ''job_embedding'' e1 = Some e2"
    "add_original_id row e2 = Some e3"
    "resolve_employer elk row e3 = Some e4"
    "resolve_jobsource jlk row e4 = Some e"
    by (rule job_entry_stages)
  have "strip_optional e2 = e0"
    using add_optional_strip [OF s(2)] add_optional_strip [OF s(3)] strip_base [OF s(1)]
    by simp
  with add_original_id_strip [OF s(4)]
  have a: "add_original_id row e0 = Some (strip_optional e3)" by simp
  note b = resolve_employer_strip [OF s(5)]
  note c = resolve_jobsource_strip [OF s(6)]
  show ?thesis
    using s(1) a b c by (simp add: job_entry_def add_optional_def)
qed

lemma mapM_job_entry_strip:
  "mapM (job_entry ie idesc elk jlk) rs = Some js \<Longrightarrow>
     mapM (job_entry False False elk jlk) rs = Some (map strip_optional js)"
proof (induction rs arbitrary: js)
  case Nil
  then show ?case by simp
next
  case (Cons r rs)
  from Cons.prems obtain y ys where
    y: "job_entry ie idesc elk jlk r = Some y" and
    ys: "mapM (job_entry ie idesc elk jlk) rs = Some ys" and
    js: "js = y # ys"
    by (auto split: bind_splits)
  from job_entry_strip [OF y] Cons.IH [OF ys] js show ?case
    by simp
qed




lemma mapM_PDict_conv:
  "mapM (\<lambda>x. case x of PDict d \<Rightarrow> Some d | _ \<Rightarrow> None) xs = Some js \<Longrightarrow> xs = map PDict js"
  by (induction xs arbitrary: js) (auto split: bind_splits pyval.splits)

lemma records_conv: "records doc k = Some js \<Longrightarrow> item doc k = Some (PList (map PDict js))"
  by (auto simp: records_def dest: mapM_PDict_conv split: option.splits pyval.splits)

lemma item_dict: "item doc k = Some v \<Longrightarrow> \<exists>d. doc = PDict d \<and> map_of d k = Some v"
  by (auto simp: item_def split: pyval.splits)

lemma mapM_job_copy:
  "mapM job_copy (map PDict js)
     = Some (map (\<lambda>j. PDict (filter (\<lambda>(k, v). k \<noteq> ''CategorizedData'') j)) js)"
  by (induction js) (auto simp: job_copy_def)

lemma freshdataset_main_dicts:
  assumes "map_of d ''jobs'' = Some (PList (map PDict js))"
  shows "freshdataset_main (PDict d) = Some (PDict
           [(''employers'', dict_get d ''employers'' (PList [])),
            (''jobsources'', dict_get d ''jobsources'' (PList [])),
            (''jobs'', PList (map PDict
                (map (filter (\<lambda>(k, v). k \<noteq> ''CategorizedData'')) js)))])"
  using assms
  by (simp add: freshdataset_main_def dict_get_def py_iter_def mapM_job_copy comp_def)

lemma freshdataset_main_no_jobs:
  assumes "map_of d ''jobs'' = None"
  shows "freshdataset_main (PDict d) = Some (PDict
           [(''employers'', dict_get d ''employers'' (PList [])),
            (''jobsources'', dict_get d ''jobsources'' (PList [])),
            (''jobs'', PList [])])"
  using assms
  by (simp add: freshdataset_main_def dict_get_def py_iter_def)

lemma map_of_filter_key:
  "map_of (filter (\<lambda>(k, v). k \<noteq> c) d) k' = (if k' = c then None else map_of d k')"
  by (induction d) auto

lemma keys_filter_key:
  "map fst (filter (\<lambda>(k, v). k \<noteq> c) d) = filter (\<lambda>k. k \<noteq> c) (map fst d)"
  by (induction d) auto

lemma num_of_Finite: "num_of v = None \<Longrightarrow> v \<noteq> PFloat (Finite r)"
  by (auto simp: num_of_def)

lemma key_eq_ident: "a \<noteq> PFloat NaN \<Longrightarrow> key_eq a b \<longleftrightarrow> ident a = ident b"
  by (auto simp: key_eq_def ident_def split: option.splits dest: num_of_Finite)

lemma key_eq_refl: "a \<noteq> PFloat NaN \<Longrightarrow> key_eq a a"
  by (simp add: key_eq_ident)

lemma lookup_find_set_value:
  "lookup_find (lookup_set lk k e) k' = (if key_eq k k' then Some e else lookup_find lk k')"
proof (induction lk)
  case Nil
  then show ?case by simp
next
  case (Cons p lk)
  obtain k0 e0 where p: "p = (k0, e0)" by (cases p)
  show ?case
  proof (cases "key_eq k0 k")
    case True
    then have "key_eq k k' \<longleftrightarrow> key_eq k0 k'"
      by (meson key_eq_sym key_eq_trans)
    with True show ?thesis unfolding p by simp
  next
    case False
    then have "key_eq k0 k' \<Longrightarrow> \<not> key_eq k k'"
      by (meson key_eq_sym key_eq_trans)
    with False Cons.IH show ?thesis unfolding p by auto
  qed
qed

lemma good_index_Nil: "good_index c []"
  by (simp add: good_index_def)

lemma lookup_set_keys:
  assumes "\<forall>p\<in>set lk. fst p \<noteq> PFloat NaN"
  shows "map (\<lambda>p. ident (fst p)) (lookup_set lk k e) =
           (if ident k \<in> set (map (\<lambda>p. ident (fst p)) lk)
            then map (\<lambda>p. ident (fst p)) lk
            else map (\<lambda>p. ident (fst p)) lk @ [ident k])"
  using assms
proof (induction lk)
  case Nil
  then show ?case by simp
next
  case (Cons p lk)
  obtain k0 e0 where p: "p = (k0, e0)" by (cases p)
  from Cons.prems p have n: "k0 \<noteq> PFloat NaN" by simp
  from Cons.prems have "\<forall>p\<in>set lk. fst p \<noteq> PFloat NaN" by simp
  note IH = Cons.IH [OF this]
  show ?case
  proof (cases "key_eq k0 k")
    case True
    with n have "ident k0 = ident k" by (simp add: key_eq_ident)
    with True show ?thesis unfolding p by simp
  next
    case False
    with n have "ident k0 \<noteq> ident k" by (simp add: key_eq_ident)
    with False IH show ?thesis unfolding p by auto
  qed
qed

lemma lookup_set_entries:
  "p \<in> set (lookup_set lk k e) \<Longrightarrow>
     p \<in> set lk \<or> p = (k, e) \<or> (\<exists>k0 e0. (k0, e0) \<in> set lk \<and> key_eq k0 k \<and> p = (k0, e))"
proof (induction lk)
  case Nil
  then show ?case by simp
next
  case (Cons q lk)
  obtain k0 e0 where q: "q = (k0, e0)" by (cases q)
  show ?case
  proof (cases "key_eq k0 k")
    case True
    with Cons.prems show ?thesis unfolding q by auto
  next
    case False
    with Cons.prems have "p = (k0, e0) \<or> p \<in> set (lookup_set lk k e)"
      unfolding q by simp
    then show ?thesis
    proof
      assume "p = (k0, e0)"
      then show ?thesis unfolding q by simp
    next
      assume "p \<in> set (lookup_set lk k e)"
      from Cons.IH [OF this] show ?thesis by auto
    qed
  qed
qed

lemma good_index_set:
  assumes g: "good_index c lk" and k: "k \<noteq> PFloat NaN" and e: "row_get e c = k"
  shows "good_index c (lookup_set lk k e)"
    and "set (map (\<lambda>p. ident (fst p)) (lookup_set lk k e))
           = insert (ident k) (set (map (\<lambda>p. ident (fst p)) lk))"
proof -
  from g have nn: "\<forall>p\<in>set lk. fst p \<noteq> PFloat NaN"
    and d: "distinct (map (\<lambda>p. ident (fst p)) lk)"
    and v: "\<forall>p\<in>set lk. ident (row_get (snd p) c) = ident (fst p)"
    by (simp_all add: good_index_def)
  note keys = lookup_set_keys [OF nn, of k e]
  show "set (map (\<lambda>p. ident (fst p)) (lookup_set lk k e))
           = insert (ident k) (set (map (\<lambda>p. ident (fst p)) lk))"
    unfolding keys by auto
  have d': "distinct (map (\<lambda>p. ident (fst p)) (lookup_set lk k e))"
    unfolding keys using d by simp
  have v': "fst p \<noteq> PFloat NaN \<and> ident (row_get (snd p) c) = ident (fst p)"
    if "p \<in> set (lookup_set lk k e)" for p
    using lookup_set_entries [OF that]
  proof (elim disjE exE conjE)
    assume "p \<in> set lk"
    with nn v show ?thesis by simp
  next
    assume "p = (k, e)"
    with k e show ?thesis by simp
  next
    fix k0 e0 assume a: "(k0, e0) \<in> set lk" "key_eq k0 k" "p = (k0, e)"
    from a(1) nn have "k0 \<noteq> PFloat NaN" by force
    with a(2) have "ident k0 = ident k" by (simp add: key_eq_ident)
    with a(3) e \<open>k0 \<noteq> PFloat NaN\<close> show ?thesis by simp
  qed
  from d' v' show "good_index c (lookup_set lk k e)"
    by (simp add: good_index_def)
qed

lemma fill_lookup_good:
  assumes "fill_lookup entry rs lk = Some lk'" "good_index c lk"
    and "\<forall>r\<in>set rs. \<forall>k e. entry r = Some (k, e) \<longrightarrow> k \<noteq> PFloat NaN \<and> row_get e c = k"
  shows "good_index c lk'
       \<and> set (map (\<lambda>p. ident (fst p)) lk')
           = set (map (\<lambda>p. ident (fst p)) lk) \<union> ident ` {k. \<exists>r\<in>set rs. \<exists>e. entry r = Some (k, e)}"
  using assms
proof (induction rs arbitrary: lk)
  case Nil
  then show ?case by simp
next
  case (Cons r rs)
  from Cons.prems(1) obtain k0 e0 where
    e: "entry r = Some (k0, e0)" and
    f: "fill_lookup entry rs (lookup_set lk k0 e0) = Some lk'"
    by (auto simp: lookup_store_def split: bind_splits if_splits)
  from Cons.prems(3) e have k: "k0 \<noteq> PFloat NaN" "row_get e0 c = k0" by auto
  note g = good_index_set [OF Cons.prems(2) k]
  from Cons.prems(3)
  have rest: "\<forall>r\<in>set rs. \<forall>k e. entry r = Some (k, e) \<longrightarrow> k \<noteq> PFloat NaN \<and> row_get e c = k"
    by simp
  from Cons.IH [OF f g(1) rest] have
    G: "good_index c lk'" and
    S: "set (map (\<lambda>p. ident (fst p)) lk')
           = set (map (\<lambda>p. ident (fst p)) (lookup_set lk k0 e0))
             \<union> ident ` {k. \<exists>r\<in>set rs. \<exists>e. entry r = Some (k, e)}"
    by simp_all
  have "{k. \<exists>r'\<in>set (r # rs). \<exists>e. entry r' = Some (k, e)}
          = insert k0 {k. \<exists>r\<in>set rs. \<exists>e. entry r = Some (k, e)}"
    using e by auto
  with G S g(2) show ?case by auto
qed

lemma fill_lookup_untouched:
  assumes "fill_lookup entry rs lk = Some lk'"
    and "\<forall>r\<in>set rs. \<forall>k' e'. entry r = Some (k', e') \<longrightarrow> \<not> key_eq k' k"
  shows "lookup_find lk' k = lookup_find lk k"
  using assms
proof (induction rs arbitrary: lk)
  case Nil
  then show ?case by simp
next
  case (Cons r rs)
  from Cons.prems(1) obtain k0 e0 where
    e: "entry r = Some (k0, e0)" and
    f: "fill_lookup entry rs (lookup_set lk k0 e0) = Some lk'"
    by (auto simp: lookup_store_def split: bind_splits if_splits)
  from Cons.prems(2) e have n: "\<not> key_eq k0 k" by simp
  from Cons.prems(2)
  have "\<forall>r\<in>set rs. \<forall>k' e'. entry r = Some (k', e') \<longrightarrow> \<not> key_eq k' k" by simp
  from Cons.IH [OF f this] n show ?case
    by (simp add: lookup_find_set_value)
qed

lemma fill_lookup_last:
  assumes "fill_lookup entry rs lk = Some lk'" "i < length rs"
    and "entry (rs ! i) = Some (k, e)" "k \<noteq> PFloat NaN"
    and "\<forall>j<length rs. i < j \<longrightarrow> (\<forall>k' e'. entry (rs ! j) = Some (k', e') \<longrightarrow> \<not> key_eq k' k)"
  shows "lookup_find lk' k = Some e"
  using assms
proof (induction rs arbitrary: lk i)
  case Nil
  then show ?case by simp
next
  case (Cons r rs)
  from Cons.prems(1) obtain k0 e0 where
    e0: "entry r = Some (k0, e0)" and
    f: "fill_lookup entry rs (lookup_set lk k0 e0) = Some lk'"
    by (auto simp: lookup_store_def split: bind_splits if_splits)
  show ?case
  proof (cases i)
    case 0
    with Cons.prems(3) e0 have eq: "k0 = k" "e0 = e" by simp_all
    have "\<forall>r\<in>set rs. \<forall>k' e'. entry r = Some (k', e') \<longrightarrow> \<not> key_eq k' k"
    proof (intro ballI allI impI)
      fix r' k' e' assume "r' \<in> set rs" and a: "entry r' = Some (k', e')"
      then obtain j where j: "j < length rs" "rs ! j = r'"
        by (auto simp: in_set_conv_nth)
      with Cons.prems(5) [rule_format, of "Suc j" k' e'] 0 a show "\<not> key_eq k' k"
        by simp
    qed
    from fill_lookup_untouched [OF f this] eq Cons.prems(4) show ?thesis
      by (simp add: lookup_find_set_value key_eq_refl)
  next
    case (Suc i')
    with Cons.prems(2) have i': "i' < length rs" by simp
    from Cons.prems(3) Suc have en: "entry (rs ! i') = Some (k, e)" by simp
    have "\<forall>j<length rs. i' < j \<longrightarrow> (\<forall>k' e'. entry (rs ! j) = Some (k', e') \<longrightarrow> \<not> key_eq k' k)"
    proof (intro allI impI)
      fix j k' e' assume "j < length rs" "i' < j" "entry (rs ! j) = Some (k', e')"
      with Cons.prems(5) [rule_format, of "Suc j" k' e'] Suc show "\<not> key_eq k' k"
        by simp
    qed
    from Cons.IH [OF f i' en Cons.prems(4) this] show ?thesis .
  qed
qed

lemma index_summary:
  assumes f: "fill_lookup entry rs [] = Some lk"
    and ent: "\<And>r k e. entry r = Some (k, e) \<Longrightarrow> row_item r c = Some k \<and> row_get e c = k"
    and nn: "\<forall>r\<in>set rs. row_item r c \<noteq> Some (PFloat NaN)"
  shows "distinct (map (\<lambda>e. ident (row_get e c)) (map snd lk))"
    and "length lk = card (ident ` (\<lambda>r. row_get r c) ` set rs)"
    and "\<forall>i<length rs. last_occurrence c rs i \<longrightarrow>
           (\<exists>k e. entry (rs ! i) = Some (k, e) \<and> e \<in> set (map snd lk))"
proof -
  have all: "\<exists>k e. entry r = Some (k, e)" if "r \<in> set rs" for r
    using fill_lookup_all_entries [OF f that] by blast
  have key: "row_get r c = k" if "entry r = Some (k, e)" for r k e
    using ent [OF that] by (simp add: row_get_def row_item_def)
  have pre: "\<forall>r\<in>set rs. \<forall>k e. entry r = Some (k, e) \<longrightarrow> k \<noteq> PFloat NaN \<and> row_get e c = k"
    using ent nn by fastforce
  from fill_lookup_good [OF f good_index_Nil pre] have
    G: "good_index c lk" and
    S: "set (map (\<lambda>p. ident (fst p)) lk) = ident ` {k. \<exists>r\<in>set rs. \<exists>e. entry r = Some (k, e)}"
    by simp_all
  have ids: "{k. \<exists>r\<in>set rs. \<exists>e. entry r = Some (k, e)} = (\<lambda>r. row_get r c) ` set rs"
  proof (intro set_eqI iffI)
    fix k assume "k \<in> {k. \<exists>r\<in>set rs. \<exists>e. entry r = Some (k, e)}"
    then obtain r e where "r \<in> set rs" "entry r = Some (k, e)" by blast
    with key show "k \<in> (\<lambda>r. row_get r c) ` set rs" by force
  next
    fix k assume "k \<in> (\<lambda>r. row_get r c) ` set rs"
    then obtain r where r: "r \<in> set rs" "k = row_get r c" by blast
    from all [OF r(1)] obtain k' e where "entry r = Some (k', e)" by blast
    with key r show "k \<in> {k. \<exists>r\<in>set rs. \<exists>e. entry r = Some (k, e)}" by force
  qed
  from G have d: "distinct (map (\<lambda>p. ident (fst p)) lk)"
    and v: "\<forall>p\<in>set lk. ident (row_get (snd p) c) = ident (fst p)"
    by (simp_all add: good_index_def)
  have "map (\<lambda>e. ident (row_get e c)) (map snd lk) = map (\<lambda>p. ident (row_get (snd p) c)) lk"
    by (simp add: comp_def)
  also have "\<dots> = map (\<lambda>p. ident (fst p)) lk"
    using v by (intro map_cong refl) simp
  finally have eq: "map (\<lambda>e. ident (row_get e c)) (map snd lk) = map (\<lambda>p. ident (fst p)) lk" .
  show "distinct (map (\<lambda>e. ident (row_get e c)) (map snd lk))"
    unfolding eq by (rule d)
  have "length lk = length (map (\<lambda>p. ident (fst p)) lk)" by simp
  also have "\<dots> = card (set (map (\<lambda>p. ident (fst p)) lk))"
    using d by (simp only: distinct_card)
  finally show "length lk = card (ident ` (\<lambda>r. row_get r c) ` set rs)"
    unfolding S ids .
  show "\<forall>i<length rs. last_occurrence c rs i \<longrightarrow>
           (\<exists>k e. entry (rs ! i) = Some (k, e) \<and> e \<in> set (map snd lk))"
  proof (intro allI impI)
    fix i assume i: "i < length rs" and lo: "last_occurrence c rs i"
    from all i obtain k e where e: "entry (rs ! i) = Some (k, e)" by force
    from pre i e have k: "k \<noteq> PFloat NaN" by force
    have "\<forall>j<length rs. i < j \<longrightarrow> (\<forall>k' e'. entry (rs ! j) = Some (k', e') \<longrightarrow> \<not> key_eq k' k)"
    proof (intro allI impI)
      fix j k' e' assume j: "j < length rs" "i < j" and a: "entry (rs ! j) = Some (k', e')"
      from lo j have "\<not> key_eq (row_get (rs ! j) c) (row_get (rs ! i) c)"
        by (simp add: last_occurrence_def)
      with key [OF a] key [OF e] show "\<not> key_eq k' k" by simp
    qed
    from fill_lookup_last [OF f i e k this] have "lookup_find lk k = Some e" .
    from lookup_find_in [OF this] e
    show "\<exists>k e. entry (rs ! i) = Some (k, e) \<and> e \<in> set (map snd lk)"
      by auto
  qed
qed

lemma employer_entry_key:
  "employer_entry r = Some (k, e) \<Longrightarrow> row_item r ''id'' = Some k \<and> row_get e ''id'' = k"
  by (auto simp: employer_entry_def row_get_def split: bind_splits)

lemma jobsource_entry_key:
  "jobsource_entry r = Some (k, e) \<Longrightarrow>
     row_item r ''jobsource_id'' = Some k \<and> row_get e ''jobsource_id'' = k"
  by (auto simp: jobsource_entry_def row_get_def split: bind_splits)

section \<open>Statements about the parser\<close>





text \<open>
  C4. The parser returns whatever \<^verbatim>\<open>json.loads\<close> returns. For the cell
  \<^verbatim>\<open>"hello"\<close> (a JSON string literal, quotes included) that is the string
  \<^verbatim>\<open>hello\<close>: neither a dict nor \<^verbatim>\<open>None\<close>, although the function is annotated
  \<^verbatim>\<open>-> dict | None\<close>; and the string is the field \<^verbatim>\<open>CategorizedData\<close> of the job
  record in the document that \<^verbatim>\<open>main\<close> assembles.
\<close>

theorem parse_json_column_string_literal:
  \<open>parse_json_column (PStr ''"hello"'') = Inr (PStr ''hello'')
   \<and> \<not> is_dict (PStr ''hello'') \<and> PStr ''hello'' \<noteq> PNone
   \<and> job_field (concat_jobs_main ''2026'' ex_active_literal ex_archived ex_employers
         ex_jobsources False True) 0 ''CategorizedData'' = Some (PStr ''hello'')\<close>
  by code_simp


section \<open>Statements about the normalizer\<close>







section \<open>Statements about the assembled document\<close>

text \<open>
  C2. In a document that \<^verbatim>\<open>build_unified_structure\<close> returns there is one job record for
  each row of the jobs relation, and for record \<open>i\<close>, with \<open>fk\<close> the row's cell
  \<^verbatim>\<open>employer_id\<close>: the field \<^verbatim>\<open>employer\<close> is not \<^verbatim>\<open>None\<close> if and only if \<open>fk\<close> is
  present and equal to the identifier of some row of the employers relation; in that case the
  field is a dict and the record has no field \<^verbatim>\<open>employer_id\<close>; otherwise the field is
  \<^verbatim>\<open>None\<close> and \<^verbatim>\<open>employer_id\<close> holds \<open>fk\<close>, or \<^verbatim>\<open>None\<close> when \<open>fk\<close> is missing.
  The same holds for \<^verbatim>\<open>jobsource\<close> and \<^verbatim>\<open>jobsource_id\<close> against the jobsources
  relation.
\<close>

theorem foreign_keys_resolved:
  assumes "build_unified_structure now jobs employers jobsources ie idesc = Some doc"
  shows "\<exists>js. records doc ''jobs'' = Some js \<and> length js = length (rows jobs)
    \<and> (\<forall>i<length js.
         (\<exists>fk. row_item (rows jobs ! i) ''employer_id'' = Some fk
            \<and> (map_of (js ! i) ''employer'' \<noteq> Some PNone
                 \<longleftrightarrow> pd_notna fk \<and> in_collection (rows employers) ''id'' fk)
            \<and> resolution_rule (pd_notna fk \<and> in_collection (rows employers) ''id'' fk) fk
                 (map_of (js ! i) ''employer'') (map_of (js ! i) ''employer_id''))
       \<and> (\<exists>fk. row_item (rows jobs ! i) ''jobsource_id'' = Some fk
            \<and> (map_of (js ! i) ''jobsource'' \<noteq> Some PNone
                 \<longleftrightarrow> pd_notna fk \<and> in_collection (rows jobsources) ''jobsource_id'' fk)
            \<and> resolution_rule (pd_notna fk \<and> in_collection (rows jobsources) ''jobsource_id'' fk) fk
                 (map_of (js ! i) ''jobsource'') (map_of (js ! i) ''jobsource_id'')))"
proof -
  from records_build [OF assms] obtain elk jlk js where
    e: "fill_lookup employer_entry (rows employers) [] = Some elk" and
    j: "fill_lookup jobsource_entry (rows jobsources) [] = Some jlk" and
    m: "mapM (job_entry ie idesc elk jlk) (rows jobs) = Some js" and
    r: "records doc ''jobs'' = Some js"
    by blast
  have len: "length js = length (rows jobs)"
    using m by (rule mapM_length)
  have "(\<exists>fk. row_item (rows jobs ! i) ''employer_id'' = Some fk
            \<and> (map_of (js ! i) ''employer'' \<noteq> Some PNone
                 \<longleftrightarrow> pd_notna fk \<and> in_collection (rows employers) ''id'' fk)
            \<and> resolution_rule (pd_notna fk \<and> in_collection (rows employers) ''id'' fk) fk
                 (map_of (js ! i) ''employer'') (map_of (js ! i) ''employer_id''))
       \<and> (\<exists>fk. row_item (rows jobs ! i) ''jobsource_id'' = Some fk
            \<and> (map_of (js ! i) ''jobsource'' \<noteq> Some PNone
                 \<longleftrightarrow> pd_notna fk \<and> in_collection (rows jobsources) ''jobsource_id'' fk)
            \<and> resolution_rule (pd_notna fk \<and> in_collection (rows jobsources) ''jobsource_id'' fk) fk
                 (map_of (js ! i) ''jobsource'') (map_of (js ! i) ''jobsource_id''))"
    if i: "i < length js" for i
  proof -
    from i len have je: "job_entry ie idesc elk jlk (rows jobs ! i) = Some (js ! i)"
      using mapM_nth [OF m] by simp
    from job_entry_employer [OF je] obtain fk where
      fk: "row_item (rows jobs ! i) ''employer_id'' = Some fk" and
      c: "if resolved elk fk
        then (\<exists>emp ref. lookup_find elk fk = Some emp \<and> employer_ref emp = Some ref
                \<and> map_of (js ! i) ''employer'' = Some ref) \<and> map_of (js ! i) ''employer_id'' = None
        else map_of (js ! i) ''employer'' = Some PNone
           \<and> map_of (js ! i) ''employer_id'' = Some (if pd_notna fk then fk else PNone)"
      by blast
    have E: "(map_of (js ! i) ''employer'' \<noteq> Some PNone
                 \<longleftrightarrow> pd_notna fk \<and> in_collection (rows employers) ''id'' fk)
            \<and> resolution_rule (pd_notna fk \<and> in_collection (rows employers) ''id'' fk) fk
                 (map_of (js ! i) ''employer'') (map_of (js ! i) ''employer_id'')"
    proof (cases "resolved elk fk")
      case True
      with c obtain emp ref where
        "employer_ref emp = Some ref" "map_of (js ! i) ''employer'' = Some ref"
        "map_of (js ! i) ''employer_id'' = None"
        by auto
      with True show ?thesis
        unfolding resolved_employer [OF e, symmetric] resolution_rule_def
        by (auto dest!: employer_ref_dict simp: is_dict_def)
    next
      case False
      with c show ?thesis
        unfolding resolved_employer [OF e, symmetric] resolution_rule_def
        by simp
    qed
    from job_entry_jobsource [OF je] obtain sk where
      sk: "row_item (rows jobs ! i) ''jobsource_id'' = Some sk" and
      d: "if resolved jlk sk
        then (\<exists>src ref. lookup_find jlk sk = Some src \<and> jobsource_ref src = Some ref
                \<and> map_of (js ! i) ''jobsource'' = Some ref) \<and> map_of (js ! i) ''jobsource_id'' = None
        else map_of (js ! i) ''jobsource'' = Some PNone
           \<and> map_of (js ! i) ''jobsource_id'' = Some (if pd_notna sk then sk else PNone)"
      by blast
    have S: "(map_of (js ! i) ''jobsource'' \<noteq> Some PNone
                 \<longleftrightarrow> pd_notna sk \<and> in_collection (rows jobsources) ''jobsource_id'' sk)
            \<and> resolution_rule (pd_notna sk \<and> in_collection (rows jobsources) ''jobsource_id'' sk) sk
                 (map_of (js ! i) ''jobsource'') (map_of (js ! i) ''jobsource_id'')"
    proof (cases "resolved jlk sk")
      case True
      with d obtain src ref where
        "jobsource_ref src = Some ref" "map_of (js ! i) ''jobsource'' = Some ref"
        "map_of (js ! i) ''jobsource_id'' = None"
        by auto
      with True show ?thesis
        unfolding resolved_jobsource [OF j, symmetric] resolution_rule_def
        by (auto dest!: jobsource_ref_dict simp: is_dict_def)
    next
      case False
      with d show ?thesis
        unfolding resolved_jobsource [OF j, symmetric] resolution_rule_def
        by simp
    qed
    from fk E sk S show ?thesis by blast
  qed
  with r len show ?thesis by blast
qed


theorem foreign_keys_resolved_witness:
  "build_unified_structure ''2026'' (normalize_job_schemas ex_active ex_archived)
       ex_employers ex_jobsources False True \<noteq> None
   \<and> row_item (rows (normalize_job_schemas ex_active ex_archived) ! 0) ''employer_id'' = Some (PInt 10)
   \<and> pd_notna (PInt 10) \<and> in_collection (rows ex_employers) ''id'' (PInt 10)
   \<and> job_field (build_unified_structure ''2026'' (normalize_job_schemas ex_active ex_archived)
        ex_employers ex_jobsources False True) 0 ''employer'' \<noteq> Some PNone
   \<and> job_field (build_unified_structure ''2026'' (normalize_job_schemas ex_active ex_archived)
        ex_employers ex_jobsources False True) 0 ''employer_id'' = None"
proof -
  let ?J = "normalize_job_schemas ex_active ex_archived"
  let ?B = "build_unified_structure ''2026'' ?J ex_employers ex_jobsources False True"
  have ok: "?B \<noteq> None" by code_simp
  then obtain doc where doc: "?B = Some doc" by blast
  have fk: "row_item (rows ?J ! 0) ''employer_id'' = Some (PInt 10)" by code_simp
  have p: "pd_notna (PInt 10)" by code_simp
  have c: "in_collection (rows ex_employers) ''id'' (PInt 10)" by code_simp
  have n: "0 < length (rows ?J)" by code_simp
  from foreign_keys_resolved [OF doc] obtain js where
    r: "records doc ''jobs'' = Some js" and l: "length js = length (rows ?J)" and
    a: "\<forall>i<length js.
         (\<exists>fk. row_item (rows ?J ! i) ''employer_id'' = Some fk
            \<and> (map_of (js ! i) ''employer'' \<noteq> Some PNone
                 \<longleftrightarrow> pd_notna fk \<and> in_collection (rows ex_employers) ''id'' fk)
            \<and> resolution_rule (pd_notna fk \<and> in_collection (rows ex_employers) ''id'' fk) fk
                 (map_of (js ! i) ''employer'') (map_of (js ! i) ''employer_id''))
       \<and> (\<exists>fk. row_item (rows ?J ! i) ''jobsource_id'' = Some fk
            \<and> (map_of (js ! i) ''jobsource'' \<noteq> Some PNone
                 \<longleftrightarrow> pd_notna fk \<and> in_collection (rows ex_jobsources) ''jobsource_id'' fk)
            \<and> resolution_rule (pd_notna fk \<and> in_collection (rows ex_jobsources) ''jobsource_id'' fk) fk
                 (map_of (js ! i) ''jobsource'') (map_of (js ! i) ''jobsource_id''))"
    by blast
  from n l have i0: "0 < length js" by simp
  from a [rule_format, OF i0, THEN conjunct1] fk p c
  have "map_of (js ! 0) ''employer'' \<noteq> Some PNone"
    "resolution_rule True (PInt 10) (map_of (js ! 0) ''employer'') (map_of (js ! 0) ''employer_id'')"
    by auto
  then have "map_of (js ! 0) ''employer'' \<noteq> Some PNone" "map_of (js ! 0) ''employer_id'' = None"
    by (simp_all add: resolution_rule_def)
  with r i0 have "job_field (Some doc) 0 ''employer'' \<noteq> Some PNone"
    "job_field (Some doc) 0 ''employer_id'' = None"
    by (simp_all add: job_field_def)
  with ok fk p c show ?thesis
    unfolding doc by blast
qed


text \<open>
  C5, as the code has it. The embedded source ref has the two fields \<^verbatim>\<open>jobsource_id\<close> and
  \<^verbatim>\<open>jobsource\<close> of an entry of the jobsources collection, and not its
  \<^verbatim>\<open>description\<close>; the embedded employer ref has the four fields \<^verbatim>\<open>id\<close>,
  \<^verbatim>\<open>name\<close>, \<^verbatim>\<open>alt_name\<close> and \<^verbatim>\<open>logo_url\<close> of an entry of the employers
  collection, and not \<^verbatim>\<open>fh\<close>, \<^verbatim>\<open>jobscount\<close> or \<^verbatim>\<open>jobscount_online\<close>.
\<close>

theorem embedded_refs_fields:
  assumes "build_unified_structure now jobs employers jobsources ie idesc = Some doc"
  shows "\<exists>js es ss. records doc ''jobs'' = Some js \<and> records doc ''employers'' = Some es
    \<and> records doc ''jobsources'' = Some ss
    \<and> (\<forall>e\<in>set js.
         (\<forall>ref. map_of e ''jobsource'' = Some ref \<and> ref \<noteq> PNone \<longrightarrow>
            (\<exists>i j d. ref = PDict [(''jobsource_id'', i), (''jobsource'', j)]
               \<and> [(''jobsource_id'', i), (''jobsource'', j), (''description'', d)] \<in> set ss))
       \<and> (\<forall>ref. map_of e ''employer'' = Some ref \<and> ref \<noteq> PNone \<longrightarrow>
            (\<exists>i n a l f c co.
               ref = PDict [(''id'', i), (''name'', n), (''alt_name'', a), (''logo_url'', l)]
               \<and> [(''id'', i), (''name'', n), (''alt_name'', a), (''logo_url'', l),
                   (''fh'', f), (''jobscount'', c), (''jobscount_online'', co)] \<in> set es)))"
proof -
  from records_build [OF assms] obtain elk jlk js where
    e: "fill_lookup employer_entry (rows employers) [] = Some elk" and
    j: "fill_lookup jobsource_entry (rows jobsources) [] = Some jlk" and
    m: "mapM (job_entry ie idesc elk jlk) (rows jobs) = Some js" and
    r: "records doc ''jobs'' = Some js" "records doc ''employers'' = Some (map snd elk)"
      "records doc ''jobsources'' = Some (map snd jlk)"
    by blast
  have "(\<forall>ref. map_of x ''jobsource'' = Some ref \<and> ref \<noteq> PNone \<longrightarrow>
            (\<exists>i j d. ref = PDict [(''jobsource_id'', i), (''jobsource'', j)]
               \<and> [(''jobsource_id'', i), (''jobsource'', j), (''description'', d)] \<in> set (map snd jlk)))
       \<and> (\<forall>ref. map_of x ''employer'' = Some ref \<and> ref \<noteq> PNone \<longrightarrow>
            (\<exists>i n a l f c co.
               ref = PDict [(''id'', i), (''name'', n), (''alt_name'', a), (''logo_url'', l)]
               \<and> [(''id'', i), (''name'', n), (''alt_name'', a), (''logo_url'', l),
                   (''fh'', f), (''jobscount'', c), (''jobscount_online'', co)] \<in> set (map snd elk)))"
    if x: "x \<in> set js" for x
  proof (intro conjI allI impI)
    from mapM_mem [OF m x] obtain row where je: "job_entry ie idesc elk jlk row = Some x"
      by blast
    {
      fix ref assume a: "map_of x ''jobsource'' = Some ref \<and> ref \<noteq> PNone"
      from job_entry_jobsource [OF je] a obtain src where
        s: "lookup_find jlk (the (row_item row ''jobsource_id'')) = Some src"
          "jobsource_ref src = Some ref"
        by (auto split: if_splits)
      from lookup_find_in [OF s(1)] have mem: "src \<in> snd ` set jlk" .
      from jobsource_index_shape [OF j mem] obtain i jj d where
        sh: "src = [(''jobsource_id'', i), (''jobsource'', jj), (''description'', d)]"
        by blast
      from jobsource_ref_dict [OF s(2)] sh
      have "ref = PDict [(''jobsource_id'', i), (''jobsource'', jj)]"
        by auto
      with mem sh
      show "\<exists>i j d. ref = PDict [(''jobsource_id'', i), (''jobsource'', j)]
               \<and> [(''jobsource_id'', i), (''jobsource'', j), (''description'', d)] \<in> set (map snd jlk)"
        by auto
    }
    {
      fix ref assume a: "map_of x ''employer'' = Some ref \<and> ref \<noteq> PNone"
      from job_entry_employer [OF je] a obtain emp where
        s: "lookup_find elk (the (row_item row ''employer_id'')) = Some emp"
          "employer_ref emp = Some ref"
        by (auto split: if_splits)
      from lookup_find_in [OF s(1)] have mem: "emp \<in> snd ` set elk" .
      from employer_index_shape [OF e mem] obtain i n a l f c co where
        sh: "emp = [(''id'', i), (''name'', n), (''alt_name'', a), (''logo_url'', l),
        (''fh'', f), (''jobscount'', c), (''jobscount_online'', co)]"
        by blast
      from employer_ref_dict [OF s(2)] sh
      have "ref = PDict [(''id'', i), (''name'', n), (''alt_name'', a), (''logo_url'', l)]"
        by auto
      with mem sh
      show "\<exists>i n a l f c co.
               ref = PDict [(''id'', i), (''name'', n), (''alt_name'', a), (''logo_url'', l)]
               \<and> [(''id'', i), (''name'', n), (''alt_name'', a), (''logo_url'', l),
                   (''fh'', f), (''jobscount'', c), (''jobscount_online'', co)] \<in> set (map snd elk)"
        by auto
    }
  qed
  with r show ?thesis by blast
qed


theorem embedded_refs_fields_witness:
  "build_unified_structure ''2026'' (normalize_job_schemas ex_active ex_archived)
       ex_employers ex_jobsources False True \<noteq> None
   \<and> job_field (build_unified_structure ''2026'' (normalize_job_schemas ex_active ex_archived)
        ex_employers ex_jobsources False True) 1 ''jobsource''
       = Some (PDict [(''jobsource_id'', PInt 1), (''jobsource'', PStr ''web'')])
   \<and> (\<exists>d ss. collection (build_unified_structure ''2026''
                  (normalize_job_schemas ex_active ex_archived)
                  ex_employers ex_jobsources False True) ''jobsources'' = Some ss
          \<and> [(''jobsource_id'', PInt 1), (''jobsource'', PStr ''web''), (''description'', d)]
               \<in> set ss)"
proof -
  let ?B = "build_unified_structure ''2026'' (normalize_job_schemas ex_active ex_archived)
       ex_employers ex_jobsources False True"
  have ok: "?B \<noteq> None" by code_simp
  then obtain doc where doc: "?B = Some doc" by blast
  have jf: "job_field ?B 1 ''jobsource''
       = Some (PDict [(''jobsource_id'', PInt 1), (''jobsource'', PStr ''web'')])"
    by code_simp
  from embedded_refs_fields [OF doc] obtain js ss where
    r: "records doc ''jobs'' = Some js" "records doc ''jobsources'' = Some ss" and
    a: "\<forall>e\<in>set js.
         (\<forall>ref. map_of e ''jobsource'' = Some ref \<and> ref \<noteq> PNone \<longrightarrow>
            (\<exists>i j d. ref = PDict [(''jobsource_id'', i), (''jobsource'', j)]
               \<and> [(''jobsource_id'', i), (''jobsource'', j), (''description'', d)] \<in> set ss))"
    by blast
  from jf r(1) have i1: "1 < length js" and
    v: "map_of (js ! 1) ''jobsource''
          = Some (PDict [(''jobsource_id'', PInt 1), (''jobsource'', PStr ''web'')])"
    unfolding doc by (auto simp: job_field_def split: if_splits)
  from i1 have "js ! 1 \<in> set js" by simp
  with a v obtain d where
    "[(''jobsource_id'', PInt 1), (''jobsource'', PStr ''web''), (''description'', d)] \<in> set ss"
    by fastforce
  with r(2) have "\<exists>d ss. collection (Some doc) ''jobsources'' = Some ss
          \<and> [(''jobsource_id'', PInt 1), (''jobsource'', PStr ''web''), (''description'', d)]
               \<in> set ss"
    by (auto simp: collection_def)
  with ok jf show ?thesis
    unfolding doc by blast
qed


text \<open>
  C5 as claimed fails: in the example run the source of the archived job resolves, the entry
  of the jobsources collection has a description, and the embedded ref has none.
\<close>

theorem source_ref_lacks_description:
  "job_field (concat_jobs_main ''2026'' ex_active ex_archived ex_employers ex_jobsources False True)
       1 ''jobsource''
     = Some (PDict [(''jobsource_id'', PInt 1), (''jobsource'', PStr ''web'')])
   \<and> collection (concat_jobs_main ''2026'' ex_active ex_archived ex_employers ex_jobsources False True)
       ''jobsources''
     = Some [[(''jobsource_id'', PInt 1), (''jobsource'', PStr ''web''),
              (''description'', PStr ''Found on the web'')]]"
  by code_simp

text \<open>
  C9. Two runs of \<^verbatim>\<open>build_unified_structure\<close> on the same relations that differ in the
  options (and the generation time) and both return a document have one job record for each
  row of the jobs relation, and the records are equal, in the same order, once the fields
  \<^verbatim>\<open>description\<close> and \<^verbatim>\<open>job_embedding\<close> are taken away; a record has the field
  \<^verbatim>\<open>description\<close> exactly when \<^verbatim>\<open>include_descriptions\<close> is set and the field
  \<^verbatim>\<open>job_embedding\<close> exactly when \<^verbatim>\<open>include_embeddings\<close> is set.
\<close>

theorem options_select_fields_only:
  assumes "build_unified_structure now1 jobs employers jobsources ie1 idesc1 = Some doc1"
    and "build_unified_structure now2 jobs employers jobsources ie2 idesc2 = Some doc2"
  shows "\<exists>js1 js2. records doc1 ''jobs'' = Some js1 \<and> records doc2 ''jobs'' = Some js2
    \<and> length js1 = length (rows jobs) \<and> length js2 = length (rows jobs)
    \<and> map strip_optional js1 = map strip_optional js2
    \<and> (\<forall>e\<in>set js1. (map_of e ''description'' \<noteq> None \<longleftrightarrow> idesc1)
                   \<and> (map_of e ''job_embedding'' \<noteq> None \<longleftrightarrow> ie1))
    \<and> (\<forall>e\<in>set js2. (map_of e ''description'' \<noteq> None \<longleftrightarrow> idesc2)
                   \<and> (map_of e ''job_embedding'' \<noteq> None \<longleftrightarrow> ie2))"
proof -
  from records_build [OF assms(1)] obtain elk jlk js1 where
    e: "fill_lookup employer_entry (rows employers) [] = Some elk" and
    j: "fill_lookup jobsource_entry (rows jobsources) [] = Some jlk" and
    m1: "mapM (job_entry ie1 idesc1 elk jlk) (rows jobs) = Some js1" and
    r1: "records doc1 ''jobs'' = Some js1"
    by blast
  from records_build [OF assms(2)] e j obtain js2 where
    m2: "mapM (job_entry ie2 idesc2 elk jlk) (rows jobs) = Some js2" and
    r2: "records doc2 ''jobs'' = Some js2"
    by auto
  have l: "length js1 = length (rows jobs)" "length js2 = length (rows jobs)"
    using m1 m2 by (simp_all add: mapM_length)
  have s: "map strip_optional js1 = map strip_optional js2"
    using mapM_job_entry_strip [OF m1] mapM_job_entry_strip [OF m2] by simp
  have o1: "\<forall>e\<in>set js1. (map_of e ''description'' \<noteq> None \<longleftrightarrow> idesc1)
                   \<and> (map_of e ''job_embedding'' \<noteq> None \<longleftrightarrow> ie1)"
  proof
    fix x assume "x \<in> set js1"
    from mapM_mem [OF m1 this] obtain row where "job_entry ie1 idesc1 elk jlk row = Some x"
      by blast
    then show "(map_of x ''description'' \<noteq> None \<longleftrightarrow> idesc1)
                   \<and> (map_of x ''job_embedding'' \<noteq> None \<longleftrightarrow> ie1)"
      by (rule job_entry_optional)
  qed
  have o2: "\<forall>e\<in>set js2. (map_of e ''description'' \<noteq> None \<longleftrightarrow> idesc2)
                   \<and> (map_of e ''job_embedding'' \<noteq> None \<longleftrightarrow> ie2)"
  proof
    fix x assume "x \<in> set js2"
    from mapM_mem [OF m2 this] obtain row where "job_entry ie2 idesc2 elk jlk row = Some x"
      by blast
    then show "(map_of x ''description'' \<noteq> None \<longleftrightarrow> idesc2)
                   \<and> (map_of x ''job_embedding'' \<noteq> None \<longleftrightarrow> ie2)"
      by (rule job_entry_optional)
  qed
  from r1 r2 l s o1 o2 show ?thesis by blast
qed


theorem options_select_fields_only_witness:
  "build_unified_structure ''2026'' (normalize_job_schemas ex_active ex_archived)
       ex_employers ex_jobsources True False \<noteq> None
   \<and> build_unified_structure ''2027'' (normalize_job_schemas ex_active ex_archived)
       ex_employers ex_jobsources False True \<noteq> None
   \<and> map_option (map strip_optional)
        (collection (build_unified_structure ''2026'' (normalize_job_schemas ex_active ex_archived)
           ex_employers ex_jobsources True False) ''jobs'')
     = map_option (map strip_optional)
        (collection (build_unified_structure ''2027'' (normalize_job_schemas ex_active ex_archived)
           ex_employers ex_jobsources False True) ''jobs'')
   \<and> map_option length
        (collection (build_unified_structure ''2026'' (normalize_job_schemas ex_active ex_archived)
           ex_employers ex_jobsources True False) ''jobs'')
     = Some (length (rows (normalize_job_schemas ex_active ex_archived)))
   \<and> job_field (build_unified_structure ''2026'' (normalize_job_schemas ex_active ex_archived)
           ex_employers ex_jobsources True False) 0 ''description'' = None"
proof -
  let ?J = "normalize_job_schemas ex_active ex_archived"
  let ?B1 = "build_unified_structure ''2026'' ?J ex_employers ex_jobsources True False"
  let ?B2 = "build_unified_structure ''2027'' ?J ex_employers ex_jobsources False True"
  have ok1: "?B1 \<noteq> None" by code_simp
  have ok2: "?B2 \<noteq> None" by code_simp
  from ok1 obtain doc1 where d1: "?B1 = Some doc1" by blast
  from ok2 obtain doc2 where d2: "?B2 = Some doc2" by blast
  have n: "0 < length (rows ?J)" by code_simp
  from options_select_fields_only [OF d1 d2] obtain js1 js2 where
    r: "records doc1 ''jobs'' = Some js1" "records doc2 ''jobs'' = Some js2" and
    l: "length js1 = length (rows ?J)" and
    s: "map strip_optional js1 = map strip_optional js2" and
    o: "\<forall>e\<in>set js1. (map_of e ''description'' \<noteq> None \<longleftrightarrow> False)
                   \<and> (map_of e ''job_embedding'' \<noteq> None \<longleftrightarrow> True)"
    by blast
  from n l have "js1 ! 0 \<in> set js1" by simp
  with o have "map_of (js1 ! 0) ''description'' = None" by blast
  with r l n s have
    "map_option (map strip_optional) (collection (Some doc1) ''jobs'')
       = map_option (map strip_optional) (collection (Some doc2) ''jobs'')"
    "map_option length (collection (Some doc1) ''jobs'') = Some (length (rows ?J))"
    "job_field (Some doc1) 0 ''description'' = None"
    by (simp_all add: collection_def job_field_def)
  with ok1 ok2 show ?thesis
    unfolding d1 d2 by blast
qed





text \<open>
  C10. For reference relations in which no identifier is missing: the employers collection
  of the document has exactly one entry for each distinct identifier of the employers
  relation (its length is the number of distinct identifiers, and no two entries carry the
  same identifier), the entry built from a row that no later row with the same identifier
  follows is in the collection (the last occurrence wins), and \<^verbatim>\<open>total_employers\<close> is the
  number of distinct identifiers. The same holds for the jobsources relation and
  \<^verbatim>\<open>total_jobsources\<close>. Identifiers are compared as dict keys are: numbers by value.
\<close>

theorem duplicate_identifiers_collapse:
  assumes "build_unified_structure now jobs employers jobsources ie idesc = Some doc"
    and "\<forall>r\<in>set (rows employers). row_item r ''id'' \<noteq> Some (PFloat NaN)"
    and "\<forall>r\<in>set (rows jobsources). row_item r ''jobsource_id'' \<noteq> Some (PFloat NaN)"
  shows "\<exists>es ss md. records doc ''employers'' = Some es \<and> records doc ''jobsources'' = Some ss
    \<and> item doc ''metadata'' = Some (PDict md)
    \<and> distinct (map (\<lambda>e. ident (row_get e ''id'')) es)
    \<and> length es = card (ident ` (\<lambda>r. row_get r ''id'') ` set (rows employers))
    \<and> (\<forall>i<length (rows employers). last_occurrence ''id'' (rows employers) i \<longrightarrow>
          (\<exists>k e. employer_entry (rows employers ! i) = Some (k, e) \<and> e \<in> set es))
    \<and> map_of md ''total_employers''
         = Some (PInt (int (card (ident ` (\<lambda>r. row_get r ''id'') ` set (rows employers)))))
    \<and> distinct (map (\<lambda>e. ident (row_get e ''jobsource_id'')) ss)
    \<and> length ss = card (ident ` (\<lambda>r. row_get r ''jobsource_id'') ` set (rows jobsources))
    \<and> (\<forall>i<length (rows jobsources). last_occurrence ''jobsource_id'' (rows jobsources) i \<longrightarrow>
          (\<exists>k e. jobsource_entry (rows jobsources ! i) = Some (k, e) \<and> e \<in> set ss))
    \<and> map_of md ''total_jobsources''
         = Some (PInt (int (card (ident ` (\<lambda>r. row_get r ''jobsource_id'')
                                     ` set (rows jobsources)))))"
proof -
  from records_build [OF assms(1)] obtain elk jlk js where
    e: "fill_lookup employer_entry (rows employers) [] = Some elk" and
    j: "fill_lookup jobsource_entry (rows jobsources) [] = Some jlk" and
    r: "records doc ''employers'' = Some (map snd elk)"
      "records doc ''jobsources'' = Some (map snd jlk)" and
    m: "item doc ''metadata'' = Some (PDict
               [(''generated_at'', PStr now),
                (''total_jobs'', PInt (int (length js))),
                (''active_jobs'', count_table ''active'' js),
                (''archived_jobs'', count_table ''archived'' js),
                (''total_employers'', PInt (int (length elk))),
                (''total_jobsources'', PInt (int (length jlk))),
                (''include_embeddings'', PBool ie),
                (''include_descriptions'', PBool idesc)])"
    by blast
  note E = index_summary [OF e employer_entry_key assms(2)]
  note J = index_summary [OF j jobsource_entry_key assms(3)]
  let ?md = "[(''generated_at'', PStr now),
                (''total_jobs'', PInt (int (length js))),
                (''active_jobs'', count_table ''active'' js),
                (''archived_jobs'', count_table ''archived'' js),
                (''total_employers'', PInt (int (length elk))),
                (''total_jobsources'', PInt (int (length jlk))),
                (''include_embeddings'', PBool ie),
                (''include_descriptions'', PBool idesc)]"
  have te: "map_of ?md ''total_employers''
         = Some (PInt (int (card (ident ` (\<lambda>r. row_get r ''id'') ` set (rows employers)))))"
    using E(2) by simp
  have tj: "map_of ?md ''total_jobsources''
         = Some (PInt (int (card (ident ` (\<lambda>r. row_get r ''jobsource_id'')
                                     ` set (rows jobsources)))))"
    using J(2) by simp
  have le: "length (map snd elk) = card (ident ` (\<lambda>r. row_get r ''id'') ` set (rows employers))"
    using E(2) by simp
  have lj: "length (map snd jlk)
      = card (ident ` (\<lambda>r. row_get r ''jobsource_id'') ` set (rows jobsources))"
    using J(2) by simp
  from r m E(1) le E(3) te J(1) lj J(3) tj show ?thesis
    by blast
qed


theorem duplicate_identifiers_collapse_witness:
  "build_unified_structure ''2026'' (normalize_job_schemas ex_active ex_archived)
       ex_employers ex_jobsources False True \<noteq> None
   \<and> length (rows ex_employers) = 2
   \<and> (\<exists>es. collection (build_unified_structure ''2026''
                (normalize_job_schemas ex_active ex_archived)
                ex_employers ex_jobsources False True) ''employers'' = Some es
          \<and> length es = 1
          \<and> (\<exists>k e. employer_entry (rows ex_employers ! 1) = Some (k, e) \<and> e \<in> set es))"
proof -
  let ?B = "build_unified_structure ''2026'' (normalize_job_schemas ex_active ex_archived)
       ex_employers ex_jobsources False True"
  have ok: "?B \<noteq> None" by code_simp
  then obtain doc where doc: "?B = Some doc" by blast
  have ne: "\<forall>r\<in>set (rows ex_employers). row_item r ''id'' \<noteq> Some (PFloat NaN)"
    by code_simp
  have nj: "\<forall>r\<in>set (rows ex_jobsources). row_item r ''jobsource_id'' \<noteq> Some (PFloat NaN)"
    by code_simp
  have len: "length (rows ex_employers) = 2" by code_simp
  have lo: "last_occurrence ''id'' (rows ex_employers) 1"
    unfolding last_occurrence_def len by auto
  have c: "card (ident ` (\<lambda>r. row_get r ''id'') ` set (rows ex_employers)) = 1"
    by code_simp
  from duplicate_identifiers_collapse [OF doc ne nj] obtain es where
    r: "records doc ''employers'' = Some es" and
    l: "length es = card (ident ` (\<lambda>r. row_get r ''id'') ` set (rows ex_employers))" and
    w: "\<forall>i<length (rows ex_employers). last_occurrence ''id'' (rows ex_employers) i \<longrightarrow>
          (\<exists>k e. employer_entry (rows ex_employers ! i) = Some (k, e) \<and> e \<in> set es)"
    by blast
  from len have "1 < length (rows ex_employers)" by simp
  with w lo have "\<exists>k e. employer_entry (rows ex_employers ! 1) = Some (k, e) \<and> e \<in> set es"
    by blast
  with r l c have "\<exists>es. collection (Some doc) ''employers'' = Some es
          \<and> length es = 1
          \<and> (\<exists>k e. employer_entry (rows ex_employers ! 1) = Some (k, e) \<and> e \<in> set es)"
    by (simp add: collection_def)
  with ok len show ?thesis
    unfolding doc by blast
qed


section \<open>Statements about the projection\<close>

text \<open>
  C7. For a document whose \<^verbatim>\<open>jobs\<close> are a list of records, the projection returns a
  document without \<^verbatim>\<open>metadata\<close>, with the \<^verbatim>\<open>employers\<close> and \<^verbatim>\<open>jobsources\<close> of the
  input as they are, and with one record for each job record, in the same order: the record
  without its field \<^verbatim>\<open>CategorizedData\<close>, every other field with the value and at the place
  it has in the input. The projection is a function of the input document and builds new
  records, so the input is as it was.
\<close>

theorem projection_keeps_other_fields:
  assumes "records doc ''jobs'' = Some js"
  shows "\<exists>out js'. freshdataset_main doc = Some out
    \<and> item out ''metadata'' = None
    \<and> (\<forall>es. item doc ''employers'' = Some es \<longrightarrow> item out ''employers'' = Some es)
    \<and> (\<forall>ss. item doc ''jobsources'' = Some ss \<longrightarrow> item out ''jobsources'' = Some ss)
    \<and> records out ''jobs'' = Some js' \<and> length js' = length js
    \<and> (\<forall>i<length js.
          map_of (js' ! i) ''CategorizedData'' = None
        \<and> (\<forall>k. k \<noteq> ''CategorizedData'' \<longrightarrow> map_of (js' ! i) k = map_of (js ! i) k)
        \<and> map fst (js' ! i) = filter (\<lambda>k. k \<noteq> ''CategorizedData'') (map fst (js ! i)))"
proof -
  from records_conv [OF assms] item_dict obtain d where
    d: "doc = PDict d" "map_of d ''jobs'' = Some (PList (map PDict js))"
    by blast
  let ?js' = "map (filter (\<lambda>(k, v). k \<noteq> ''CategorizedData'')) js"
  let ?out = "PDict
           [(''employers'', dict_get d ''employers'' (PList [])),
            (''jobsources'', dict_get d ''jobsources'' (PList [])),
            (''jobs'', PList (map PDict ?js'))]"
  have f: "freshdataset_main doc = Some ?out"
    unfolding d(1) using d(2) by (rule freshdataset_main_dicts)
  have m: "item ?out ''metadata'' = None"
    by (simp add: item_def)
  have e: "\<forall>es. item doc ''employers'' = Some es \<longrightarrow> item ?out ''employers'' = Some es"
    "\<forall>ss. item doc ''jobsources'' = Some ss \<longrightarrow> item ?out ''jobsources'' = Some ss"
    unfolding d(1) by (simp_all add: item_def dict_get_def)
  have r: "records ?out ''jobs'' = Some ?js'"
    unfolding records_def item_def by (simp add: mapM_PDict del: map_map)
  have k: "\<forall>i<length js.
          map_of (?js' ! i) ''CategorizedData'' = None
        \<and> (\<forall>k. k \<noteq> ''CategorizedData'' \<longrightarrow> map_of (?js' ! i) k = map_of (js ! i) k)
        \<and> map fst (?js' ! i) = filter (\<lambda>k. k \<noteq> ''CategorizedData'') (map fst (js ! i))"
    by (simp add: map_of_filter_key keys_filter_key)
  have l: "length ?js' = length js" by simp
  from f m e r l k show ?thesis by blast
qed


theorem projection_keeps_other_fields_witness:
  "collection (concat_jobs_main ''2026'' ex_active ex_archived ex_employers ex_jobsources
      False True) ''jobs'' \<noteq> None
   \<and> job_field (Option.bind (concat_jobs_main ''2026'' ex_active ex_archived ex_employers
        ex_jobsources False True) freshdataset_main) 0 ''CategorizedData'' = None
   \<and> job_field (Option.bind (concat_jobs_main ''2026'' ex_active ex_archived ex_employers
        ex_jobsources False True) freshdataset_main) 0 ''job_title''
      = job_field (concat_jobs_main ''2026'' ex_active ex_archived ex_employers
        ex_jobsources False True) 0 ''job_title''
   \<and> doc_item (Option.bind (concat_jobs_main ''2026'' ex_active ex_archived ex_employers
        ex_jobsources False True) freshdataset_main) ''metadata'' = None"
proof -
  let ?M = "concat_jobs_main ''2026'' ex_active ex_archived ex_employers ex_jobsources False True"
  have ok: "collection ?M ''jobs'' \<noteq> None" by code_simp
  then obtain doc js where doc: "?M = Some doc" and r: "records doc ''jobs'' = Some js"
    by (auto simp: collection_def split: option.splits)
  have "job_field ?M 0 ''job_title'' \<noteq> None" by code_simp
  with doc r have i: "0 < length js"
    by (auto simp: job_field_def split: if_splits)
  from projection_keeps_other_fields [OF r] obtain out js' where
    f: "freshdataset_main doc = Some out" and
    m: "item out ''metadata'' = None" and
    r': "records out ''jobs'' = Some js'" and l: "length js' = length js" and
    k: "\<forall>i<length js.
          map_of (js' ! i) ''CategorizedData'' = None
        \<and> (\<forall>k. k \<noteq> ''CategorizedData'' \<longrightarrow> map_of (js' ! i) k = map_of (js ! i) k)
        \<and> map fst (js' ! i) = filter (\<lambda>k. k \<noteq> ''CategorizedData'') (map fst (js ! i))"
    by blast
  from k [rule_format, OF i] have
    "map_of (js' ! 0) ''CategorizedData'' = None"
    "map_of (js' ! 0) ''job_title'' = map_of (js ! 0) ''job_title''"
    by simp_all
  with r r' l i m have
    "job_field (Some out) 0 ''CategorizedData'' = None"
    "job_field (Some out) 0 ''job_title'' = job_field (Some doc) 0 ''job_title''"
    "doc_item (Some out) ''metadata'' = None"
    by (simp_all add: job_field_def doc_item_def)
  with ok show ?thesis
    unfolding doc by (simp add: f)
qed


text \<open>
  C6, as the code has it. No exception is raised for a missing collection:
  \<^verbatim>\<open>unified_data.get(k, [])\<close> supplies an empty list. For a dict whose \<^verbatim>\<open>jobs\<close> are
  missing or a list of records the projection returns a document, in which each of the three
  collections that the input lacks is the empty list.
\<close>

theorem projection_supplies_empty_collections:
  assumes "map_of d ''jobs'' = None \<or> (\<exists>js. records (PDict d) ''jobs'' = Some js)"
  shows "\<exists>out. freshdataset_main (PDict d) = Some out
    \<and> (map_of d ''employers'' = None \<longrightarrow> item out ''employers'' = Some (PList []))
    \<and> (map_of d ''jobsources'' = None \<longrightarrow> item out ''jobsources'' = Some (PList []))
    \<and> (map_of d ''jobs'' = None \<longrightarrow> item out ''jobs'' = Some (PList []))"
proof (cases "map_of d ''jobs''")
  case None
  from freshdataset_main_no_jobs [OF this] None show ?thesis
    by (simp add: item_def dict_get_def)
next
  case (Some v)
  with assms obtain js where "records (PDict d) ''jobs'' = Some js" by auto
  from records_conv [OF this] have "map_of d ''jobs'' = Some (PList (map PDict js))"
    by (simp add: item_def)
  from freshdataset_main_dicts [OF this] Some show ?thesis
    by (simp add: item_def dict_get_def)
qed


theorem projection_supplies_empty_collections_witness:
  "map_of [(''metadata'', PDict []), (''jobsources'', PList [])] ''jobs'' = None
   \<and> map_of [(''metadata'', PDict []), (''jobsources'', PList [])] ''employers'' = None
   \<and> freshdataset_main (PDict [(''metadata'', PDict []), (''jobsources'', PList [])]) \<noteq> None
   \<and> doc_item (freshdataset_main (PDict [(''metadata'', PDict []), (''jobsources'', PList [])]))
        ''employers'' = Some (PList [])
   \<and> doc_item (freshdataset_main (PDict [(''metadata'', PDict []), (''jobsources'', PList [])]))
        ''jobs'' = Some (PList [])"
proof -
  let ?d = "[(''metadata'', PDict []), (''jobsources'', PList [])]"
  have j: "map_of ?d ''jobs'' = None" by simp
  have e: "map_of ?d ''employers'' = None" by simp
  from j have h: "map_of ?d ''jobs'' = None \<or> (\<exists>js. records (PDict ?d) ''jobs'' = Some js)"
    by (rule disjI1)
  from projection_supplies_empty_collections [OF h] j e obtain out where
    "freshdataset_main (PDict ?d) = Some out"
    "item out ''employers'' = Some (PList [])" "item out ''jobs'' = Some (PList [])"
    by blast
  then have "freshdataset_main (PDict ?d) \<noteq> None"
    "doc_item (freshdataset_main (PDict ?d)) ''employers'' = Some (PList [])"
    "doc_item (freshdataset_main (PDict ?d)) ''jobs'' = Some (PList [])"
    by (simp_all add: doc_item_def)
  with j e show ?thesis by blast
qed


text \<open>
  C6 as claimed fails: a document with none of the three collections is projected to a
  document with three empty collections.
\<close>

theorem projection_without_collections:
  "freshdataset_main (PDict [(''metadata'', PDict [])])
     = Some (PDict [(''employers'', PList []), (''jobsources'', PList []), (''jobs'', PList [])])"
  by code_simp

end
